theory Spec2Isabelle
  imports Complex_Main "HOL-Library.AList"
begin

section \<open>Data model (types.ts)\<close>

datatype NodeType =
  TEXT_INPUT | IMAGE_INPUT | TEXT_GENERATOR | IMAGE_EDITOR
  | VIDEO_GENERATOR | OUTPUT_DISPLAY | PROMPT_PRESET

datatype NodeStatus = IDLE | PROCESSING | COMPLETED | ERROR

text \<open>The port type tags \<^verbatim>\<open>'text' | 'image' | 'video' | 'any'\<close>.\<close>

datatype PortType = T_text | T_image | T_video | T_any

text \<open>
  Values of the untyped \<^verbatim>\<open>content: any\<close> field and of everything that flows along
  edges: \<^verbatim>\<open>undefined\<close>, \<^verbatim>\<open>null\<close>, a string, a \<^verbatim>\<open>File\<close> (its base64 payload and its
  MIME type), the structured result \<^verbatim>\<open>{image, text}\<close> and the placeholder
  \<^verbatim>\<open>{progress}\<close>.
\<close>

datatype val =
  Undefined | Null | Str string | FileObj string string
  | ImageText string val | Progress string

text \<open>JavaScript truthiness of a value.\<close>

fun truthy :: "val \<Rightarrow> bool" where
  "truthy Undefined = False"
| "truthy Null = False"
| "truthy (Str s) = (s \<noteq> [])"
| "truthy (FileObj d m) = True"
| "truthy (ImageText i t) = True"
| "truthy (Progress p) = True"

text \<open>\<^verbatim>\<open>NodeInput\<close> and \<^verbatim>\<open>NodeOutput\<close> have the same three fields.\<close>

record Port =
  port_id :: string
  port_label :: string
  port_type :: PortType

type_synonym NodeInput = Port
type_synonym NodeOutput = Port

text \<open>\<^verbatim>\<open>NodeData\<close>; the presentation fields width and height are left out.\<close>

record NodeData =
  label :: string
  inputs :: "NodeInput list"
  outputs :: "NodeOutput list"
  content :: val
  status :: NodeStatus
  errorMessage :: "string option"
  prompt :: "string option"
  isMuted :: bool

record Node =
  node_id :: string
  ntype :: NodeType
  data :: NodeData

record Edge =
  edge_id :: string
  sourceNodeId :: string
  sourceHandleId :: string
  targetNodeId :: string
  targetHandleId :: string

record HistoryItem =
  hist_id :: string
  dataUrl :: string
  hist_prompt :: val

text \<open>
  A \<^verbatim>\<open>Record<string, T>\<close> is an object. It is modelled by the association list of its
  properties in the order in which they were created; \<^verbatim>\<open>{...prev, [k]: v}\<close> is
  \<^const>\<open>AList.update\<close> (an existing key keeps its place, a new key comes last) and
  \<^verbatim>\<open>obj[k]\<close> is \<^const>\<open>map_of\<close>.
\<close>

type_synonym 'a js_record = "(string \<times> 'a) list"

text \<open>
  \<^verbatim>\<open>Object.keys\<close> and \<^verbatim>\<open>Object.values\<close> enumerate the own properties in the order
  JavaScript fixes: first the keys that are array indices (the canonical decimal
  numerals from 0 to \<open>2\<^sup>3\<^sup>2 - 2\<close>), in ascending numeric order, then all other keys
  in the order of their creation.
\<close>

definition is_digit :: "char \<Rightarrow> bool" where
  "is_digit c \<longleftrightarrow> c \<in> set ''0123456789''"

definition digit_val :: "char \<Rightarrow> int" where
  "digit_val c =
     (case map_of [(CHR ''0'', 0), (CHR ''1'', 1), (CHR ''2'', 2), (CHR ''3'', 3), (CHR ''4'', 4),
                   (CHR ''5'', 5), (CHR ''6'', 6), (CHR ''7'', 7), (CHR ''8'', 8), (CHR ''9'', 9)] c of
        None \<Rightarrow> 0
      | Some d \<Rightarrow> d)"

definition int_of_digits :: "string \<Rightarrow> int" where
  "int_of_digits k = foldl (\<lambda>n c. 10 * n + digit_val c) 0 k"

definition is_array_index :: "string \<Rightarrow> bool" where
  "is_array_index k \<longleftrightarrow>
     k \<noteq> [] \<and> list_all is_digit k \<and> (k = ''0'' \<or> take 1 k \<noteq> ''0'')
     \<and> int_of_digits k \<le> 4294967294"

definition own_entries :: "'a js_record \<Rightarrow> 'a js_record" where
  "own_entries r =
     sort_key (\<lambda>p. int_of_digits (fst p)) (filter (\<lambda>p. is_array_index (fst p)) r)
     @ filter (\<lambda>p. \<not> is_array_index (fst p)) r"

definition Object_keys :: "'a js_record \<Rightarrow> string list" where
  "Object_keys r = map fst (own_entries r)"

definition Object_values :: "'a js_record \<Rightarrow> 'a list" where
  "Object_values r = map snd (own_entries r)"

text \<open>Thrown values: an \<^verbatim>\<open>Error\<close>, a \<^verbatim>\<open>TypeError\<close> (both carry a message), or any other
  thrown value, kept as its \<^verbatim>\<open>String(error)\<close>.\<close>

datatype js_error = Error string | TypeError string | NonError string

section \<open>Node construction (App.tsx, createNode)\<close>

text \<open>An entry of the preset table \<^verbatim>\<open>PRESET_CONFIGS\<close> (its file is not part of the
  sources at hand, so the entry looked up is a parameter): label, prompt, and the
  label and type of each input and output.\<close>

record PresetConfig =
  cfg_label :: string
  cfg_prompt :: string
  cfg_inputs :: "(string \<times> PortType) list"
  cfg_outputs :: "(string \<times> PortType) list"

definition digit_char :: "nat \<Rightarrow> char" where
  "digit_char n = ''0123456789'' ! n"

fun show_nat :: "nat \<Rightarrow> string" where
  "show_nat n = (if n < 10 then [digit_char n] else show_nat (n div 10) @ [digit_char (n mod 10)])"

declare show_nat.simps [simp del]

definition baseData :: NodeData where
  "baseData = \<lparr>label = [], inputs = [], outputs = [], content = Null, status = IDLE,
               errorMessage = None, prompt = None, isMuted = False\<rparr>"

definition mkPort :: "string \<Rightarrow> string \<Rightarrow> PortType \<Rightarrow> Port" where
  "mkPort i l t = \<lparr>port_id = i, port_label = l, port_type = t\<rparr>"

text \<open>\<^verbatim>\<open>createNode(type, position, presetId)\<close>: \<open>i\<close> is the fresh UUID and
  \<open>PRESET_CONFIGS\<close> the preset table.\<close>

definition createNode ::
  "(string \<rightharpoonup> PresetConfig) \<Rightarrow> string \<Rightarrow> NodeType \<Rightarrow> string option \<Rightarrow> js_error + Node"
where
  "createNode PRESET_CONFIGS i t presetId =
     (case t of
        TEXT_INPUT \<Rightarrow> Inr \<lparr>node_id = i, ntype = t, data = baseData
          \<lparr>label := ''Text Input'', outputs := [mkPort (i @ ''-output'') ''Text'' T_text]\<rparr>\<rparr>
      | IMAGE_INPUT \<Rightarrow> Inr \<lparr>node_id = i, ntype = t, data = baseData
          \<lparr>label := ''Image Input'', outputs := [mkPort (i @ ''-output'') ''Image'' T_image]\<rparr>\<rparr>
      | TEXT_GENERATOR \<Rightarrow> Inr \<lparr>node_id = i, ntype = t, data = baseData
          \<lparr>label := ''Text Generator'',
           inputs := [mkPort (i @ ''-input'') ''Prompt'' T_text],
           outputs := [mkPort (i @ ''-output'') ''Text'' T_text]\<rparr>\<rparr>
      | IMAGE_EDITOR \<Rightarrow> Inr \<lparr>node_id = i, ntype = t, data = baseData
          \<lparr>label := ''Image Generator/Editor'',
           inputs := [mkPort (i @ ''-input-image'') ''Image (Optional)'' T_image,
                      mkPort (i @ ''-input-text'') ''Prompt'' T_text],
           outputs := [mkPort (i @ ''-output-image'') ''Image'' T_image,
                       mkPort (i @ ''-output-text'') ''Text'' T_text]\<rparr>\<rparr>
      | VIDEO_GENERATOR \<Rightarrow> Inr \<lparr>node_id = i, ntype = t, data = baseData
          \<lparr>label := ''Video Generator'',
           inputs := [mkPort (i @ ''-input-image'') ''Image'' T_image,
                      mkPort (i @ ''-input-text'') ''Text'' T_text],
           outputs := [mkPort (i @ ''-output'') ''Video'' T_video]\<rparr>\<rparr>
      | OUTPUT_DISPLAY \<Rightarrow> Inr \<lparr>node_id = i, ntype = t, data = baseData
          \<lparr>label := ''Output'', inputs := [mkPort (i @ ''-input'') ''Input'' T_any]\<rparr>\<rparr>
      | PROMPT_PRESET \<Rightarrow>
          (case (case presetId of None \<Rightarrow> None
                 | Some k \<Rightarrow> if k = [] then None else PRESET_CONFIGS k) of
             None \<Rightarrow>
               Inl (Error (''Unknown presetId: ''
                      @ (case presetId of None \<Rightarrow> ''undefined'' | Some k \<Rightarrow> k)))
           | Some config \<Rightarrow>
               Inr \<lparr>node_id = i, ntype = t, data = baseData
                 \<lparr>label := cfg_label config,
                  inputs :=
                    (if 1 < length (cfg_inputs config)
                        \<and> list_all (\<lambda>p. snd p = T_image) (cfg_inputs config)
                     then [mkPort (i @ ''-input-multi-image'') ''Images'' T_image]
                     else map (\<lambda>(k, p). mkPort (i @ ''-input-'' @ show_nat k) (fst p) (snd p))
                            (enumerate 0 (cfg_inputs config))),
                  outputs :=
                    map (\<lambda>(k, p). mkPort (i @ ''-output-'' @ show_nat k) (fst p) (snd p))
                      (enumerate 0 (cfg_outputs config)),
                  prompt := Some (cfg_prompt config)\<rparr>\<rparr>))"

text \<open>The node that \<^verbatim>\<open>createNode(type, position)\<close> returns for a kind other than a
  preset.\<close>

definition created :: "string \<Rightarrow> NodeType \<Rightarrow> Node" where
  "created i t = (case createNode Map.empty i t None of Inr n \<Rightarrow> n
     | Inl e \<Rightarrow> \<lparr>node_id = i, ntype = t, data = baseData\<rparr>)"

section \<open>Connecting ports (App.tsx, handleMouseUp)\<close>

definition isTypeCompatible :: "PortType \<Rightarrow> PortType \<Rightarrow> bool" where
  "isTypeCompatible sourceType inputType \<longleftrightarrow>
     sourceType = inputType \<or> inputType = T_any \<or> sourceType = T_any"

definition endsWith :: "string \<Rightarrow> string \<Rightarrow> bool" where
  "endsWith s suf \<longleftrightarrow> length suf \<le> length s \<and> drop (length s - length suf) s = suf"

definition isAlreadyConnected :: "Edge js_record \<Rightarrow> string \<Rightarrow> string \<Rightarrow> bool" where
  "isAlreadyConnected edges nodeId handleId =
     list_ex (\<lambda>edge. targetNodeId edge = nodeId \<and> targetHandleId edge = handleId)
       (Object_values edges)"

definition isMultiImageHandle :: "NodeType \<Rightarrow> string \<Rightarrow> bool" where
  "isMultiImageHandle t handleId \<longleftrightarrow>
     t = PROMPT_PRESET \<and> endsWith handleId ''-input-multi-image''"

text \<open>The \<^verbatim>\<open>for (const input of targetNode.data.inputs)\<close> loop with its
  \<^verbatim>\<open>continue\<close> and \<^verbatim>\<open>break\<close>: the handle id found, if any.\<close>

fun scanInputs ::
  "Edge js_record \<Rightarrow> string \<Rightarrow> NodeType \<Rightarrow> PortType \<Rightarrow> NodeInput list \<Rightarrow> string option"
where
  "scanInputs edges tid t sourceType [] = None"
| "scanInputs edges tid t sourceType (input # rest) =
     (if \<not> isTypeCompatible sourceType (port_type input)
      then scanInputs edges tid t sourceType rest
      else if \<not> isAlreadyConnected edges tid (port_id input)
                \<or> isMultiImageHandle t (port_id input)
      then Some (port_id input)
      else scanInputs edges tid t sourceType rest)"

text \<open>
  Where the mouse was released: on an input handle (the \<^verbatim>\<open>data-node-id\<close> of the
  enclosing node element, if there is one, and the handle's element id), or
  elsewhere (the \<^verbatim>\<open>data-node-id\<close> of the closest node element, if there is one).
\<close>

datatype drop_target =
  OnInputHandle "string option" string
  | OffHandle "string option"

text \<open>Case 1 and Case 2 of the handler: the pair (targetNodeId, targetHandleId),
  \<^const>\<open>None\<close> for \<^verbatim>\<open>null\<close>.\<close>

definition resolveTarget ::
  "Node js_record \<Rightarrow> Edge js_record \<Rightarrow> string \<Rightarrow> string \<Rightarrow> drop_target
     \<Rightarrow> string option \<times> string option"
where
  "resolveTarget nodes edges srcNodeId srcHandleId d =
     (case d of
        OnInputHandle nodeAttr handleId \<Rightarrow> (nodeAttr, Some handleId)
      | OffHandle None \<Rightarrow> (None, None)
      | OffHandle (Some potentialTargetNodeId) \<Rightarrow>
          (if potentialTargetNodeId = [] then (None, None)
           else
             let sourceType =
                   (case map_of nodes srcNodeId of
                      None \<Rightarrow> None
                    | Some sourceNode \<Rightarrow>
                        map_option port_type
                          (find (\<lambda>out. port_id out = srcHandleId) (outputs (data sourceNode))))
             in (case (map_of nodes potentialTargetNodeId, sourceType) of
                   (Some targetNode, Some st) \<Rightarrow>
                     (if srcNodeId \<noteq> potentialTargetNodeId
                      then (case scanInputs edges potentialTargetNodeId (ntype targetNode) st
                                   (inputs (data targetNode)) of
                              None \<Rightarrow> (None, None)
                            | Some h \<Rightarrow> (Some potentialTargetNodeId, Some h))
                      else (None, None))
                 | _ \<Rightarrow> (None, None))))"

text \<open>The connecting branch of \<^verbatim>\<open>handleMouseUp\<close>: the edge record after the final
  check; \<open>uuid\<close> is what \<^verbatim>\<open>crypto.randomUUID()\<close> returns.\<close>

definition connectOnMouseUp ::
  "Node js_record \<Rightarrow> Edge js_record \<Rightarrow> string \<Rightarrow> string \<Rightarrow> drop_target \<Rightarrow> string
     \<Rightarrow> Edge js_record"
where
  "connectOnMouseUp nodes edges srcNodeId srcHandleId d uuid =
     (case resolveTarget nodes edges srcNodeId srcHandleId d of
        (Some tid, Some hid) \<Rightarrow>
          (if tid \<noteq> [] \<and> hid \<noteq> [] \<and> srcNodeId \<noteq> tid
           then
             let multi = (case map_of nodes tid of
                            None \<Rightarrow> False
                          | Some targetNode \<Rightarrow> isMultiImageHandle (ntype targetNode) hid)
             in if \<not> isAlreadyConnected edges tid hid \<or> multi
                then AList.update uuid
                       \<lparr>edge_id = uuid, sourceNodeId = srcNodeId, sourceHandleId = srcHandleId,
                        targetNodeId = tid, targetHandleId = hid\<rparr> edges
                else edges
           else edges)
      | _ \<Rightarrow> edges)"

text \<open>A port is available when nothing is connected to it or when it is the
  aggregating multi-image port of a preset node.\<close>

definition available :: "Edge js_record \<Rightarrow> Node \<Rightarrow> string \<Rightarrow> NodeInput \<Rightarrow> bool" where
  "available edges targetNode tid p \<longleftrightarrow>
     \<not> isAlreadyConnected edges tid (port_id p)
     \<or> isMultiImageHandle (ntype targetNode) (port_id p)"

section \<open>Scheduling (App.tsx, runWorkflow, lines 514 to 532)\<close>

text \<open>A JavaScript number as the scheduler uses it: an integer counter, or
  \<^verbatim>\<open>NaN\<close> (what \<^verbatim>\<open>undefined++\<close> and \<^verbatim>\<open>undefined--\<close> store).\<close>

datatype jsnum = Num int | NaN

fun incr :: "jsnum option \<Rightarrow> jsnum" where
  "incr None = NaN"
| "incr (Some NaN) = NaN"
| "incr (Some (Num n)) = Num (n + 1)"

fun decr :: "jsnum option \<Rightarrow> jsnum" where
  "decr None = NaN"
| "decr (Some NaN) = NaN"
| "decr (Some (Num n)) = Num (n - 1)"

text \<open>\<^verbatim>\<open>nodeIds.reduce((acc, id) => ({ ...acc, [id]: v }), {})\<close>\<close>

definition init_record :: "'a \<Rightarrow> string list \<Rightarrow> 'a js_record" where
  "init_record v nodeIds = foldl (\<lambda>acc i. AList.update i v acc) [] nodeIds"

text \<open>One call of the \<^verbatim>\<open>forEach\<close> callback over the edges:
  \<^verbatim>\<open>adj[edge.sourceNodeId].push(edge.targetNodeId); inDegree[edge.targetNodeId]++\<close>.
  Calling \<^verbatim>\<open>push\<close> on \<^verbatim>\<open>undefined\<close> throws a TypeError.\<close>

definition addEdge ::
  "Edge \<Rightarrow> string list js_record \<times> jsnum js_record
     \<Rightarrow> js_error + (string list js_record \<times> jsnum js_record)"
where
  "addEdge edge s =
     (case s of (adj, inDegree) \<Rightarrow>
        (case map_of adj (sourceNodeId edge) of
           None \<Rightarrow> Inl (TypeError ''Cannot read properties of undefined (reading 'push')'')
         | Some ts \<Rightarrow>
             Inr (AList.update (sourceNodeId edge) (ts @ [targetNodeId edge]) adj,
                  AList.update (targetNodeId edge)
                    (incr (map_of inDegree (targetNodeId edge))) inDegree)))"

fun addEdges ::
  "Edge list \<Rightarrow> string list js_record \<times> jsnum js_record
     \<Rightarrow> js_error + (string list js_record \<times> jsnum js_record)"
where
  "addEdges [] s = Inr s"
| "addEdges (edge # rest) s =
     (case addEdge edge s of Inl e \<Rightarrow> Inl e | Inr s' \<Rightarrow> addEdges rest s')"

text \<open>The callback of \<^verbatim>\<open>adj[u]?.forEach\<close>:
  \<^verbatim>\<open>inDegree[v]--; if (inDegree[v] === 0) queue.push(v)\<close>.\<close>

definition visit :: "string \<Rightarrow> string list \<times> jsnum js_record \<Rightarrow> string list \<times> jsnum js_record"
where
  "visit v s =
     (case s of (queue, inDegree) \<Rightarrow>
        let d = decr (map_of inDegree v)
        in (if d = Num 0 then queue @ [v] else queue, AList.update v d inDegree))"

definition successors :: "string list js_record \<Rightarrow> string \<Rightarrow> string list" where
  "successors adj u = (case map_of adj u of None \<Rightarrow> [] | Some vs \<Rightarrow> vs)"

definition positives :: "jsnum js_record \<Rightarrow> nat" where
  "positives inDegree = length (filter (\<lambda>p. case snd p of Num n \<Rightarrow> 0 < n | NaN \<Rightarrow> False) inDegree)"

lemma positives_update:
  "positives (AList.update v (decr (map_of d v)) d) \<le> positives d"
  "decr (map_of d v) = Num 0 \<Longrightarrow> Suc (positives (AList.update v (decr (map_of d v)) d)) \<le> positives d"
proof -
  have a: "positives (AList.update v (decr (map_of d v)) d) \<le> positives d"
    unfolding positives_def
  proof (induction d)
    case Nil
    show ?case by simp
  next
    case (Cons p d)
    show ?case
    proof (cases "fst p = v")
      case True
      then show ?thesis
        by (cases p; cases "snd p") (auto split: jsnum.splits)
    next
      case False
      with Cons show ?thesis by (cases p) auto
    qed
  qed
  show "positives (AList.update v (decr (map_of d v)) d) \<le> positives d" by (rule a)
  show "Suc (positives (AList.update v (decr (map_of d v)) d)) \<le> positives d"
    if "decr (map_of d v) = Num 0"
    using that unfolding positives_def
  proof (induction d)
    case Nil
    then show ?case by simp
  next
    case (Cons p d)
    show ?case
    proof (cases "fst p = v")
      case True
      with Cons.prems show ?thesis
        by (cases p; cases "snd p") (auto split: jsnum.splits)
    next
      case False
      with Cons show ?thesis by (cases p) auto
    qed
  qed
qed

lemma visit_measure:
  "length (fst (visit v s)) + positives (snd (visit v s)) \<le> length (fst s) + positives (snd s)"
proof (cases s)
  case (Pair q d)
  show ?thesis
  proof (cases "decr (map_of d v) = Num 0")
    case True
    from positives_update(2)[OF True] Pair True show ?thesis
      by (simp add: visit_def Let_def)
  next
    case False
    with positives_update(1)[of v d] Pair show ?thesis
      by (simp add: visit_def Let_def)
  qed
qed

lemma fold_visit_measure:
  "length (fst (fold visit vs s)) + positives (snd (fold visit vs s))
     \<le> length (fst s) + positives (snd s)"
proof (induction vs arbitrary: s)
  case Nil
  show ?case by simp
next
  case (Cons v vs)
  have "length (fst (fold visit vs (visit v s))) + positives (snd (fold visit vs (visit v s)))
          \<le> length (fst (visit v s)) + positives (snd (visit v s))"
    by (rule Cons.IH)
  also have "\<dots> \<le> length (fst s) + positives (snd s)" by (rule visit_measure)
  finally show ?case by simp
qed

text \<open>The \<^verbatim>\<open>while (queue.length > 0)\<close> loop.\<close>

function kahn_loop ::
  "string list js_record \<Rightarrow> string list \<Rightarrow> string list \<Rightarrow> jsnum js_record \<Rightarrow> string list"
where
  "kahn_loop adj [] executionOrder inDegree = executionOrder"
| "kahn_loop adj (u # queue) executionOrder inDegree =
     kahn_loop adj (fst (fold visit (successors adj u) (queue, inDegree)))
       (executionOrder @ [u]) (snd (fold visit (successors adj u) (queue, inDegree)))"
  by pat_completeness auto
termination
proof (relation "measure (\<lambda>(adj, queue, executionOrder, inDegree).
                    length queue + positives inDegree)")
  show "wf (measure (\<lambda>(adj, queue, executionOrder, inDegree).
                    length queue + positives inDegree))" by simp
next
  fix adj :: "string list js_record" and u queue executionOrder and inDegree :: "jsnum js_record"
  from fold_visit_measure[of "successors adj u" "(queue, inDegree)"]
  show "((adj, fst (fold visit (successors adj u) (queue, inDegree)), executionOrder @ [u],
          snd (fold visit (successors adj u) (queue, inDegree))),
         (adj, u # queue, executionOrder, inDegree))
        \<in> measure (\<lambda>(adj, queue, executionOrder, inDegree). length queue + positives inDegree)"
    by simp
qed

text \<open>The scheduling phase: the execution order, or the exception thrown while
  the adjacency lists are built.\<close>

definition schedule :: "Node js_record \<Rightarrow> Edge js_record \<Rightarrow> js_error + string list" where
  "schedule nodes edges =
     (let nodeIds = Object_keys nodes
      in case addEdges (Object_values edges)
                (init_record [] nodeIds, init_record (Num 0) nodeIds) of
           Inl e \<Rightarrow> Inl e
         | Inr (adj, inDegree) \<Rightarrow>
             Inr (kahn_loop adj
                    (filter (\<lambda>i. map_of inDegree i = Some (Num 0)) nodeIds) [] inDegree))"

section \<open>The generation service (services/geminiService.ts)\<close>

subsection \<open>String helpers\<close>

definition startsWith :: "string \<Rightarrow> string \<Rightarrow> bool" where
  "startsWith s p \<longleftrightarrow> take (length p) s = p"

fun str_includes :: "string \<Rightarrow> string \<Rightarrow> bool" where
  "str_includes [] sub = (sub = [])"
| "str_includes (c # cs) sub = (take (length sub) (c # cs) = sub \<or> str_includes cs sub)"

text \<open>\<^verbatim>\<open>toLowerCase\<close> on the ASCII letters: the only characters that decide whether the
  result contains \<^verbatim>\<open>'rate limit'\<close>.\<close>

definition lower_char :: "char \<Rightarrow> char" where
  "lower_char c =
     (case map_of (zip ''ABCDEFGHIJKLMNOPQRSTUVWXYZ'' ''abcdefghijklmnopqrstuvwxyz'') c of
        None \<Rightarrow> c
      | Some l \<Rightarrow> l)"

definition toLowerCase :: "string \<Rightarrow> string" where
  "toLowerCase s = map lower_char s"

text \<open>\<^verbatim>\<open>s.split(c)\<close> for a one-character separator.\<close>

fun split :: "char \<Rightarrow> string \<Rightarrow> string list" where
  "split c [] = [[]]"
| "split c (x # xs) =
     (if x = c then [] # split c xs
      else (case split c xs of [] \<Rightarrow> [[x]] | p # ps \<Rightarrow> (x # p) # ps))"

subsection \<open>The outside world\<close>

text \<open>
  What the code reads of \<^verbatim>\<open>JSON.parse(message)?.error\<close>: the numeric \<^verbatim>\<open>code\<close>, and the
  strings \<^verbatim>\<open>status\<close> and \<^verbatim>\<open>message\<close>, each when present.
\<close>

record error_envelope =
  err_code :: "int option"
  err_status :: "string option"
  err_message :: "string option"

text \<open>Requests and responses of the SDK calls, as far as the code builds and reads
  them. An image part is its base64 data (\<^verbatim>\<open>undefined\<close> is \<^const>\<open>None\<close>) and MIME type.\<close>

datatype content_request =
  TextRequest string val
  | PartsRequest string "(string option \<times> string) list" val

record part =
  part_text :: "string option"
  part_inlineData :: "string option"

record content_response =
  resp_text :: val
  candidates :: "part list list"

record generated_image =
  imageBytes :: string
  img_mimeType :: "string option"

record images_response =
  generatedImages :: "generated_image option list"

record operation =
  op_done :: bool
  op_uri :: "string option"

datatype api_call =
  GenerateContent content_request
  | GenerateImages val
  | GenerateVideos "(string \<times> string) option" val
  | GetVideosOperation operation
  | Fetch string

text \<open>
  The environment: everything the code calls and does not define. The SDK calls take
  the number of calls made before them, so that the same request may fail once and
  succeed later. \<open>JSON_parse_error m\<close> is \<^const>\<open>None\<close> when \<^verbatim>\<open>JSON.parse(m)\<close> throws,
  \<open>Some None\<close> when the parsed value has no \<^verbatim>\<open>error\<close> member, and \<open>Some (Some d)\<close>
  when it has one. \<open>Math_random k\<close> is the result of the k-th call of
  \<^verbatim>\<open>Math.random()\<close>, \<open>randomUUID k\<close> of the k-th call of \<^verbatim>\<open>crypto.randomUUID()\<close>, and
  \<open>fetchObjectURL\<close> fetches a URL and returns the object URL of its blob.
\<close>

record env =
  JSON_parse_error :: "string \<Rightarrow> error_envelope option option"
  Math_random :: "nat \<Rightarrow> real"
  randomUUID :: "nat \<Rightarrow> string"
  generateContent :: "nat \<Rightarrow> content_request \<Rightarrow> js_error + content_response"
  generateImages :: "nat \<Rightarrow> val \<Rightarrow> js_error + images_response"
  generateVideos :: "nat \<Rightarrow> (string \<times> string) option \<Rightarrow> val \<Rightarrow> js_error + operation"
  getVideosOperation :: "nat \<Rightarrow> operation \<Rightarrow> js_error + operation"
  fetchObjectURL :: "string \<Rightarrow> js_error + string"
  API_KEY :: string

text \<open>The trace of effects on the outside world: the SDK calls made, the number of
  random numbers and UUIDs drawn, and the timeouts waited for (in milliseconds).\<close>

record world =
  api_log :: "api_call list"
  random_draws :: nat
  uuid_draws :: nat
  delays :: "real list"

definition invoke ::
  "api_call \<Rightarrow> (nat \<Rightarrow> js_error + 'a) \<Rightarrow> 'w world_scheme \<Rightarrow> (js_error + 'a) \<times> 'w world_scheme"
where
  "invoke c f w = (f (length (api_log w)), w\<lparr>api_log := api_log w @ [c]\<rparr>)"

definition delay :: "real \<Rightarrow> 'w world_scheme \<Rightarrow> 'w world_scheme" where
  "delay ms w = w\<lparr>delays := delays w @ [ms]\<rparr>"

definition random_next :: "env \<Rightarrow> 'w world_scheme \<Rightarrow> real \<times> 'w world_scheme" where
  "random_next env w = (Math_random env (random_draws w), w\<lparr>random_draws := Suc (random_draws w)\<rparr>)"

definition uuid_next :: "env \<Rightarrow> 'w world_scheme \<Rightarrow> string \<times> 'w world_scheme" where
  "uuid_next env w = (randomUUID env (uuid_draws w), w\<lparr>uuid_draws := Suc (uuid_draws w)\<rparr>)"

subsection \<open>withRetry\<close>

definition MAX_RETRIES :: nat where
  "MAX_RETRIES = 3"

definition INITIAL_DELAY_MS :: real where
  "INITIAL_DELAY_MS = 2000"

text \<open>\<^verbatim>\<open>error instanceof Error ? error.message : String(error)\<close>\<close>

fun message_of :: "js_error \<Rightarrow> string" where
  "message_of (Error m) = m"
| "message_of (TypeError m) = m"
| "message_of (NonError s) = s"

fun instanceof_Error :: "js_error \<Rightarrow> bool" where
  "instanceof_Error (NonError s) = False"
| "instanceof_Error e = True"

text \<open>The classification inside the \<^verbatim>\<open>catch\<close> of \<^verbatim>\<open>withRetry\<close>: the structured match when
  the message parses as JSON, the textual match only when it does not.\<close>

definition isRateLimitError :: "env \<Rightarrow> js_error \<Rightarrow> bool" where
  "isRateLimitError env error =
     (if instanceof_Error error \<and> message_of error \<noteq> []
      then (case JSON_parse_error env (message_of error) of
              Some errorDetails \<Rightarrow>
                (case errorDetails of
                   None \<Rightarrow> False
                 | Some d \<Rightarrow> err_code d = Some 429 \<or> err_status d = Some ''RESOURCE_EXHAUSTED'')
            | None \<Rightarrow>
                str_includes (message_of error) ''429''
                \<or> str_includes (toLowerCase (message_of error)) ''rate limit'')
      else False)"

text \<open>The \<^verbatim>\<open>for (let i = 0; i < MAX_RETRIES; i++)\<close> loop from iteration \<open>i\<close> on, with the
  current \<^verbatim>\<open>lastError\<close>; the wrapped call is a computation on the world.\<close>

function withRetry_from ::
  "env \<Rightarrow> ('w world_scheme \<Rightarrow> (js_error + 'a) \<times> 'w world_scheme) \<Rightarrow> nat \<Rightarrow> js_error
     \<Rightarrow> 'w world_scheme \<Rightarrow> (js_error + 'a) \<times> 'w world_scheme"
where
  "withRetry_from env apiCall i lastError w =
     (if i < MAX_RETRIES
      then (case apiCall w of
              (Inr v, w1) \<Rightarrow> (Inr v, w1)
            | (Inl error, w1) \<Rightarrow>
                if isRateLimitError env error
                then if i < MAX_RETRIES - 1
                     then let backoffTime = INITIAL_DELAY_MS * 2 ^ i;
                              (r, w2) = random_next env w1;
                              jitter = r * 1000;
                              waitTime = backoffTime + jitter
                          in withRetry_from env apiCall (i + 1) error (delay waitTime w2)
                     else (Inl error, w1)
                else (Inl error, w1))
      else (Inl lastError, w))"
  by pat_completeness auto
termination
  by (relation "measure (\<lambda>(env, apiCall, i, lastError, w). MAX_RETRIES - i)") auto

declare withRetry_from.simps [simp del]

definition withRetry ::
  "env \<Rightarrow> ('w world_scheme \<Rightarrow> (js_error + 'a) \<times> 'w world_scheme)
     \<Rightarrow> 'w world_scheme \<Rightarrow> (js_error + 'a) \<times> 'w world_scheme"
where
  "withRetry env apiCall w = withRetry_from env apiCall 0 (NonError ''undefined'') w"

definition formatError :: "env \<Rightarrow> js_error \<Rightarrow> string" where
  "formatError env error =
     (let errorMessage = message_of error
      in ''Error: '' @
         (case JSON_parse_error env errorMessage of
            Some (Some d) \<Rightarrow>
              (case err_message d of
                 None \<Rightarrow> errorMessage
               | Some m \<Rightarrow>
                   if m = [] then errorMessage
                   else m @ (case err_status d of
                               None \<Rightarrow> []
                             | Some st \<Rightarrow> if st = [] then [] else '' (Status: '' @ st @ '')''))
          | _ \<Rightarrow> errorMessage))"

definition generateContentWithRetry ::
  "env \<Rightarrow> content_request \<Rightarrow> 'w world_scheme \<Rightarrow> (js_error + content_response) \<times> 'w world_scheme"
where
  "generateContentWithRetry env req =
     withRetry env (invoke (GenerateContent req) (\<lambda>k. generateContent env k req))"

definition generateImagesWithRetry ::
  "env \<Rightarrow> val \<Rightarrow> 'w world_scheme \<Rightarrow> (js_error + images_response) \<times> 'w world_scheme"
where
  "generateImagesWithRetry env p =
     withRetry env (invoke (GenerateImages p) (\<lambda>k. generateImages env k p))"

definition generateVideosWithRetry ::
  "env \<Rightarrow> (string \<times> string) option \<Rightarrow> val \<Rightarrow> 'w world_scheme
     \<Rightarrow> (js_error + operation) \<times> 'w world_scheme"
where
  "generateVideosWithRetry env img p =
     withRetry env (invoke (GenerateVideos img p) (\<lambda>k. generateVideos env k img p))"

definition getVideosOperationWithRetry ::
  "env \<Rightarrow> operation \<Rightarrow> 'w world_scheme \<Rightarrow> (js_error + operation) \<times> 'w world_scheme"
where
  "getVideosOperationWithRetry env operation =
     withRetry env (invoke (GetVideosOperation operation) (\<lambda>k. getVideosOperation env k operation))"

subsection \<open>The exported operations\<close>

definition generateText :: "env \<Rightarrow> val \<Rightarrow> 'w world_scheme \<Rightarrow> val \<times> 'w world_scheme" where
  "generateText env p w =
     (if \<not> truthy p then (Str ''Error: Prompt is empty.'', w)
      else (case generateContentWithRetry env (TextRequest ''gemini-2.5-flash'' p) w of
              (Inr response, w') \<Rightarrow> (resp_text response, w')
            | (Inl error, w') \<Rightarrow> (Str (formatError env error), w')))"

definition generateImage :: "env \<Rightarrow> val \<Rightarrow> 'w world_scheme \<Rightarrow> val \<times> 'w world_scheme" where
  "generateImage env p w =
     (if \<not> truthy p then (Str ''Error: Prompt is empty.'', w)
      else (case generateImagesWithRetry env p w of
              (Inr response, w') \<Rightarrow>
                (case generatedImages response of
                   Some img # rest \<Rightarrow>
                     (Str (''data:''
                           @ (case img_mimeType img of
                                None \<Rightarrow> ''image/jpeg''
                              | Some m \<Rightarrow> if m = [] then ''image/jpeg'' else m)
                           @ '';base64,'' @ imageBytes img), w')
                 | _ \<Rightarrow> (Str ''Error: Image generation failed to produce an image.'', w'))
            | (Inl error, w') \<Rightarrow> (Str (formatError env error), w')))"

text \<open>The result \<^verbatim>\<open>{ newBase64Image, text }\<close>; \<^verbatim>\<open>null\<close> is \<^const>\<open>None\<close>.\<close>

record edit_result =
  newBase64Image :: "string option"
  res_text :: "string option"

text \<open>The loop over \<^verbatim>\<open>response.candidates[0].content.parts\<close>.\<close>

fun scanParts :: "part list \<Rightarrow> edit_result \<Rightarrow> edit_result" where
  "scanParts [] r = r"
| "scanParts (p # ps) r =
     scanParts ps
       (case part_text p of
          Some t \<Rightarrow>
            if t \<noteq> [] then r\<lparr>res_text := Some t\<rparr>
            else (case part_inlineData p of None \<Rightarrow> r | Some d \<Rightarrow> r\<lparr>newBase64Image := Some d\<rparr>)
        | None \<Rightarrow>
            (case part_inlineData p of None \<Rightarrow> r | Some d \<Rightarrow> r\<lparr>newBase64Image := Some d\<rparr>))"

definition readParts :: "env \<Rightarrow> content_response \<Rightarrow> edit_result" where
  "readParts env response =
     (case candidates response of
        [] \<Rightarrow> \<lparr>newBase64Image = None,
               res_text = Some (formatError env
                 (TypeError ''Cannot read properties of undefined (reading 'content')''))\<rparr>
      | parts # rest \<Rightarrow> scanParts parts \<lparr>newBase64Image = None, res_text = None\<rparr>)"

definition truthy_str :: "string option \<Rightarrow> bool" where
  "truthy_str x = (case x of None \<Rightarrow> False | Some s \<Rightarrow> s \<noteq> [])"

definition editImage ::
  "env \<Rightarrow> string option \<Rightarrow> string \<Rightarrow> val \<Rightarrow> 'w world_scheme \<Rightarrow> edit_result \<times> 'w world_scheme"
where
  "editImage env base64Image mimeType p w =
     (if \<not> truthy_str base64Image \<or> \<not> truthy p
      then (\<lparr>newBase64Image = None, res_text = Some ''Error: Image or prompt is missing.''\<rparr>, w)
      else (case generateContentWithRetry env
                   (PartsRequest ''gemini-2.5-flash-image-preview'' [(base64Image, mimeType)] p) w of
              (Inr response, w') \<Rightarrow> (readParts env response, w')
            | (Inl error, w') \<Rightarrow>
                (\<lparr>newBase64Image = None, res_text = Some (formatError env error)\<rparr>, w')))"

definition executePreset ::
  "env \<Rightarrow> (string option \<times> string) list \<Rightarrow> val \<Rightarrow> 'w world_scheme
     \<Rightarrow> edit_result \<times> 'w world_scheme"
where
  "executePreset env ins p w =
     (if ins = [] \<or> \<not> truthy p
      then (\<lparr>newBase64Image = None, res_text = Some ''Error: Image(s) or prompt is missing.''\<rparr>, w)
      else (case generateContentWithRetry env
                   (PartsRequest ''gemini-2.5-flash-image-preview'' ins p) w of
              (Inr response, w') \<Rightarrow> (readParts env response, w')
            | (Inl error, w') \<Rightarrow>
                (\<lparr>newBase64Image = None, res_text = Some (formatError env error)\<rparr>, w')))"

text \<open>The polling loop \<^verbatim>\<open>while (!operation.done)\<close> of \<^verbatim>\<open>generateVideo\<close>. Nothing bounds
  the number of polls, so the loop is a partial function: \<^const>\<open>None\<close> when the
  operation never reports completion.\<close>

partial_function (option) pollOperation ::
  "env \<Rightarrow> (string \<Rightarrow> 'w world_scheme \<Rightarrow> 'w world_scheme) \<Rightarrow> operation \<Rightarrow> 'w world_scheme
     \<Rightarrow> ((js_error + operation) \<times> 'w world_scheme) option"
where
  "pollOperation env onProgress operation w =
     (if op_done operation then Some (Inr operation, w)
      else (case getVideosOperationWithRetry env operation
                   (onProgress ''Checking video status...'' (delay 10000 w)) of
              (Inl error, w') \<Rightarrow> Some (Inl error, w')
            | (Inr operation', w') \<Rightarrow> pollOperation env onProgress operation' w'))"

declare pollOperation.simps [code]

text \<open>\<^verbatim>\<open>fetch(`${downloadLink}&key=${API_KEY}`)\<close>, its blob and the object URL made of it.\<close>

definition fetchVideo ::
  "env \<Rightarrow> string \<Rightarrow> 'w world_scheme \<Rightarrow> (js_error + string) \<times> 'w world_scheme"
where
  "fetchVideo env downloadLink w =
     invoke (Fetch (downloadLink @ ''&key='' @ API_KEY env))
       (\<lambda>k. fetchObjectURL env (downloadLink @ ''&key='' @ API_KEY env)) w"

text \<open>The image passed along with the prompt: present when
  \<^verbatim>\<open>base64Image && mimeType\<close> holds.\<close>

definition imageArg :: "string option \<Rightarrow> string option \<Rightarrow> (string \<times> string) option" where
  "imageArg base64Image mimeType =
     (case (base64Image, mimeType) of
        (Some b, Some m) \<Rightarrow> if b \<noteq> [] \<and> m \<noteq> [] then Some (b, m) else None
      | _ \<Rightarrow> None)"

text \<open>The \<^verbatim>\<open>try\<close> block of \<^verbatim>\<open>generateVideo\<close>: the object URL, or what was thrown.\<close>

definition generateVideo_try ::
  "env \<Rightarrow> string option \<Rightarrow> string option \<Rightarrow> val
     \<Rightarrow> (string \<Rightarrow> 'w world_scheme \<Rightarrow> 'w world_scheme) \<Rightarrow> 'w world_scheme
     \<Rightarrow> ((js_error + string) \<times> 'w world_scheme) option"
where
  "generateVideo_try env base64Image mimeType p onProgress w =
     (let w0 = onProgress ''Starting video generation...'' w;
          img = imageArg base64Image mimeType
      in case generateVideosWithRetry env img p w0 of
           (Inl error, w1) \<Rightarrow> Some (Inl error, w1)
         | (Inr operation, w1) \<Rightarrow>
             (case pollOperation env onProgress operation
                     (onProgress ''Video processing has started. This may take a few minutes...'' w1) of
                None \<Rightarrow> None
              | Some (Inl error, w2) \<Rightarrow> Some (Inl error, w2)
              | Some (Inr operation', w2) \<Rightarrow>
                  (let w3 = onProgress ''Video processing complete. Fetching video...'' w2
                   in case op_uri operation' of
                        None \<Rightarrow> Some (Inl (Error ''Video URI not found in response.''), w3)
                      | Some downloadLink \<Rightarrow>
                          if downloadLink = []
                          then Some (Inl (Error ''Video URI not found in response.''), w3)
                          else (case fetchVideo env downloadLink w3 of
                                  (Inl error, w4) \<Rightarrow> Some (Inl error, w4)
                                | (Inr url, w4) \<Rightarrow>
                                    Some (Inr url, onProgress ''Video fetched successfully.'' w4)))))"

definition generateVideo ::
  "env \<Rightarrow> string option \<Rightarrow> string option \<Rightarrow> val
     \<Rightarrow> (string \<Rightarrow> 'w world_scheme \<Rightarrow> 'w world_scheme) \<Rightarrow> 'w world_scheme
     \<Rightarrow> (val \<times> 'w world_scheme) option"
where
  "generateVideo env base64Image mimeType p onProgress w =
     (if \<not> truthy p then Some (Str ''Error: Prompt is empty.'', w)
      else (case generateVideo_try env base64Image mimeType p onProgress w of
              None \<Rightarrow> None
            | Some (Inr url, w') \<Rightarrow> Some (Str url, w')
            | Some (Inl error, w') \<Rightarrow>
                Some (Str (formatError env error), onProgress (formatError env error) w')))"

section \<open>The execution engine (App.tsx, runWorkflow, lines 499 to 708)\<close>

text \<open>
  The state a run works on: the React state \<^verbatim>\<open>nodes\<close> as the functional updates of
  \<^verbatim>\<open>setNodes\<close> see it (\<open>store\<close>), the history, the local \<^verbatim>\<open>nodeOutputs\<close> and the flag
  \<^verbatim>\<open>isProcessing\<close>, on top of the trace of outside effects. The run reads the graph from
  the \<^verbatim>\<open>nodes\<close> and \<^verbatim>\<open>edges\<close> its closure captured, which are parameters below.
\<close>

record run_state = world +
  store :: "Node js_record"
  history :: "HistoryItem list"
  nodeOutputs :: "val js_record"
  isProcessing :: bool

text \<open>Reading a property of an object: \<^verbatim>\<open>undefined\<close> when the key is absent.\<close>

definition lookup :: "val js_record \<Rightarrow> string \<Rightarrow> val" where
  "lookup r k = (case map_of r k of None \<Rightarrow> Undefined | Some v \<Rightarrow> v)"

text \<open>\<^verbatim>\<open>updateNodeData(nodeId, data)\<close>; the partial record \<^verbatim>\<open>data\<close> is the update \<open>upd\<close>.\<close>

definition updateNodeData :: "string \<Rightarrow> (NodeData \<Rightarrow> NodeData) \<Rightarrow> run_state \<Rightarrow> run_state" where
  "updateNodeData nodeId upd s =
     (case map_of (store s) nodeId of
        None \<Rightarrow> s
      | Some n \<Rightarrow> s\<lparr>store := AList.update nodeId (n\<lparr>data := upd (data n)\<rparr>) (store s)\<rparr>)"

text \<open>The reset at the start of a run.\<close>

definition resetNode :: "Node \<Rightarrow> Node" where
  "resetNode n =
     n\<lparr>data := (data n)\<lparr>status := IDLE, errorMessage := None,
                          content := (if ntype n \<noteq> TEXT_INPUT \<and> ntype n \<noteq> IMAGE_INPUT
                                      then Null else content (data n))\<rparr>\<rparr>"

definition resetNodes :: "Node js_record \<Rightarrow> Node js_record" where
  "resetNodes prev = map (\<lambda>(k, n). (k, resetNode n)) prev"

text \<open>The \<^verbatim>\<open>inputs\<close> object of a node: one entry per incoming edge, a later edge to the
  same handle overwriting an earlier one.\<close>

definition gatherInputs :: "Edge js_record \<Rightarrow> val js_record \<Rightarrow> string \<Rightarrow> val js_record" where
  "gatherInputs edges outs nodeId =
     fold (\<lambda>edge ins. AList.update (targetHandleId edge) (lookup outs (sourceHandleId edge)) ins)
       (filter (\<lambda>e. targetNodeId e = nodeId) (Object_values edges)) []"

text \<open>The branch \<^verbatim>\<open>if (node.data.isMuted)\<close>.\<close>

definition runMuted :: "Node \<Rightarrow> string \<Rightarrow> val js_record \<Rightarrow> run_state \<Rightarrow> run_state" where
  "runMuted node nodeId ins s =
     (let s1 = updateNodeData nodeId (\<lambda>d. d\<lparr>status := COMPLETED\<rparr>) s
      in case inputs (data node) of
           [] \<Rightarrow> s1
         | firstInputHandle # rest \<Rightarrow>
             s1\<lparr>nodeOutputs :=
                  fold (\<lambda>outputHandle outs.
                          AList.update (port_id outputHandle)
                            (lookup ins (port_id firstInputHandle)) outs)
                    (outputs (data node)) (nodeOutputs s1)\<rparr>)"

text \<open>\<^verbatim>\<open>processImageInput\<close>: \<^verbatim>\<open>null\<close> is \<^const>\<open>None\<close>; a data URL without a comma has
  \<^verbatim>\<open>undefined\<close> data.\<close>

definition processImageInput :: "val \<Rightarrow> js_error + (string option \<times> string) option" where
  "processImageInput imageInput =
     (if \<not> truthy imageInput then Inr None
      else (case imageInput of
              FileObj d m \<Rightarrow> Inr (Some (Some d, m))
            | Str s \<Rightarrow>
                if startsWith s ''data:image''
                then (case split CHR '','' s of
                        [] \<Rightarrow> Inl (TypeError ''Cannot read properties of undefined (reading 'split')'')
                      | meta # payload \<Rightarrow>
                          (case split CHR '':'' meta of
                             a # b # c \<Rightarrow>
                               Inr (Some (case payload of [] \<Rightarrow> None | base64 # r \<Rightarrow> Some base64,
                                          (case split CHR '';'' b of [] \<Rightarrow> [] | m # r \<Rightarrow> m)))
                           | _ \<Rightarrow>
                               Inl (TypeError
                                 ''Cannot read properties of undefined (reading 'split')'')))
                else Inr None
            | _ \<Rightarrow> Inr None))"

text \<open>\<^verbatim>\<open>setHistory(prev => [historyItem, ...prev])\<close> with a fresh id.\<close>

definition addHistory :: "env \<Rightarrow> string \<Rightarrow> val \<Rightarrow> run_state \<Rightarrow> run_state" where
  "addHistory env url p s =
     (case uuid_next env s of
        (i, s1) \<Rightarrow> s1\<lparr>history := \<lparr>hist_id = i, dataUrl = url, hist_prompt = p\<rparr> # history s1\<rparr>)"

text \<open>A string that is truthy, if the value is one.\<close>

definition if_truthy :: "string option \<Rightarrow> string option" where
  "if_truthy x = (case x of None \<Rightarrow> None | Some s \<Rightarrow> if s = [] then None else Some s)"

definition text_val :: "string option \<Rightarrow> val" where
  "text_val t = (case t of None \<Rightarrow> Null | Some x \<Rightarrow> Str x)"

text \<open>\<^verbatim>\<open>result.text || fallback\<close>\<close>

definition text_or :: "string option \<Rightarrow> string \<Rightarrow> string" where
  "text_or t fallback = (case t of None \<Rightarrow> fallback | Some x \<Rightarrow> if x = [] then fallback else x)"

text \<open>The case \<^verbatim>\<open>NodeType.IMAGE_EDITOR\<close>: the output, or what is thrown.\<close>

definition runImageEditor ::
  "env \<Rightarrow> string \<Rightarrow> val js_record \<Rightarrow> run_state \<Rightarrow> (js_error + val) \<times> run_state"
where
  "runImageEditor env nodeId ins s =
     (let imageInput = lookup ins (nodeId @ ''-input-image'');
          textInput = lookup ins (nodeId @ ''-input-text'')
      in if \<not> truthy textInput
         then (Inl (Error ''A text prompt is required for image generation/editing.''), s)
         else (case processImageInput imageInput of
                 Inl e \<Rightarrow> (Inl e, s)
               | Inr (Some (d, mimeType)) \<Rightarrow>
                   (case editImage env d mimeType textInput s of
                      (result, s1) \<Rightarrow>
                        (case if_truthy (newBase64Image result) of
                           Some b \<Rightarrow>
                             (Inr (ImageText (''data:'' @ mimeType @ '';base64,'' @ b)
                                     (text_val (res_text result))),
                              addHistory env (''data:'' @ mimeType @ '';base64,'' @ b)
                                textInput s1)
                         | None \<Rightarrow>
                             (Inl (Error (text_or (res_text result)
                                     ''Image editing failed to produce an image.'')), s1)))
               | Inr None \<Rightarrow>
                   (case generateImage env textInput s of
                      (Str result, s1) \<Rightarrow>
                        if result \<noteq> [] \<and> startsWith result ''data:image''
                        then (Inr (ImageText result Null), addHistory env result textInput s1)
                        else (Inl (Error (if result = [] then ''Image generation failed.''
                                          else result)), s1)
                    | (other, s1) \<Rightarrow> (Inl (Error ''Image generation failed.''), s1))))"

text \<open>The raw image inputs of a preset node: the values at the sources of all edges
  into the multi-image handle when the node has one, the values of its declared
  inputs otherwise.\<close>

definition imageInputsRaw ::
  "Edge js_record \<Rightarrow> Node \<Rightarrow> string \<Rightarrow> val js_record \<Rightarrow> val js_record \<Rightarrow> val list"
where
  "imageInputsRaw edges node nodeId ins outs =
     (case find (\<lambda>i. port_id i = nodeId @ ''-input-multi-image'') (inputs (data node)) of
        Some multiImageInput \<Rightarrow>
          map (\<lambda>edge. lookup outs (sourceHandleId edge))
            (filter (\<lambda>e. targetNodeId e = nodeId \<and> targetHandleId e = port_id multiImageInput)
               (Object_values edges))
      | None \<Rightarrow> map (\<lambda>input. lookup ins (port_id input)) (inputs (data node)))"

text \<open>\<^verbatim>\<open>Promise.all\<close>: all results, or the first rejection.\<close>

fun all_results :: "(js_error + 'a) list \<Rightarrow> js_error + 'a list" where
  "all_results [] = Inr []"
| "all_results (Inl e # rs) = Inl e"
| "all_results (Inr x # rs) = (case all_results rs of Inl e \<Rightarrow> Inl e | Inr xs \<Rightarrow> Inr (x # xs))"

text \<open>The case \<^verbatim>\<open>NodeType.PROMPT_PRESET\<close>.\<close>

definition runPreset ::
  "env \<Rightarrow> Edge js_record \<Rightarrow> Node \<Rightarrow> string \<Rightarrow> val js_record \<Rightarrow> run_state
     \<Rightarrow> (js_error + val) \<times> run_state"
where
  "runPreset env edges node nodeId ins s =
     (case all_results (map processImageInput
                          (imageInputsRaw edges node nodeId ins (nodeOutputs s))) of
        Inl e \<Rightarrow> (Inl e, s)
      | Inr files \<Rightarrow>
          (case ([f. Some f \<leftarrow> files], if_truthy (prompt (data node))) of
             (first # others, Some p) \<Rightarrow>
               (case executePreset env (first # others) (Str p) s of
                  (result, s1) \<Rightarrow>
                    (case if_truthy (newBase64Image result) of
                       Some b \<Rightarrow>
                         (Inr (ImageText (''data:'' @ snd first @ '';base64,'' @ b)
                                 (text_val (res_text result))),
                          addHistory env (''data:'' @ snd first @ '';base64,'' @ b) (Str p) s1)
                     | None \<Rightarrow>
                         (Inl (Error (text_or (res_text result)
                                 ''Preset failed to produce an image.'')), s1)))
           | _ \<Rightarrow>
               (Inl (Error (''Missing required inputs for preset: '' @ label (data node))), s)))"

text \<open>The case \<^verbatim>\<open>NodeType.VIDEO_GENERATOR\<close>; \<^const>\<open>None\<close> when the polling never ends.\<close>

definition runVideoGenerator ::
  "env \<Rightarrow> string \<Rightarrow> val js_record \<Rightarrow> run_state \<Rightarrow> ((js_error + val) \<times> run_state) option"
where
  "runVideoGenerator env nodeId ins s =
     (case processImageInput (lookup ins (nodeId @ ''-input-image'')) of
        Inl e \<Rightarrow> Some (Inl e, s)
      | Inr imageFile \<Rightarrow>
          (case generateVideo env
                  (case imageFile of None \<Rightarrow> None | Some (d, m) \<Rightarrow> d)
                  (map_option snd imageFile)
                  (lookup ins (nodeId @ ''-input-text''))
                  (\<lambda>progress. updateNodeData nodeId (\<lambda>d. d\<lparr>content := Progress progress\<rparr>)) s of
             None \<Rightarrow> None
           | Some (output, s1) \<Rightarrow> Some (Inr output, s1)))"

text \<open>The \<^verbatim>\<open>switch (node.type)\<close> inside the \<^verbatim>\<open>try\<close>: the output, or what is thrown.\<close>

definition dispatch ::
  "env \<Rightarrow> Edge js_record \<Rightarrow> Node \<Rightarrow> string \<Rightarrow> val js_record \<Rightarrow> run_state
     \<Rightarrow> ((js_error + val) \<times> run_state) option"
where
  "dispatch env edges node nodeId ins s =
     (case ntype node of
        TEXT_INPUT \<Rightarrow> Some (Inr (content (data node)), s)
      | IMAGE_INPUT \<Rightarrow> Some (Inr (content (data node)), s)
      | TEXT_GENERATOR \<Rightarrow>
          (case generateText env (lookup ins (nodeId @ ''-input'')) s of
             (output, s1) \<Rightarrow> Some (Inr output, s1))
      | IMAGE_EDITOR \<Rightarrow> Some (runImageEditor env nodeId ins s)
      | PROMPT_PRESET \<Rightarrow> Some (runPreset env edges node nodeId ins s)
      | VIDEO_GENERATOR \<Rightarrow> runVideoGenerator env nodeId ins s
      | OUTPUT_DISPLAY \<Rightarrow> Some (Inr (lookup ins (nodeId @ ''-input'')), s))"

text \<open>Writing the output to the node's output handles.\<close>

definition routeOutputs :: "Node \<Rightarrow> val \<Rightarrow> val js_record \<Rightarrow> val js_record" where
  "routeOutputs node output outs =
     fold (\<lambda>out acc.
             AList.update (port_id out)
               (case output of
                  ImageText img txt \<Rightarrow>
                    if ntype node = IMAGE_EDITOR \<or> ntype node = PROMPT_PRESET
                    then (if port_type out = T_image then Str img else txt)
                    else output
                | _ \<Rightarrow> output) acc)
       (outputs (data node)) outs"

text \<open>How one iteration of \<^verbatim>\<open>for (const nodeId of executionOrder)\<close> ends: the loop goes
  on, the \<^verbatim>\<open>catch\<close> returns from the run, or an exception leaves the run uncaught.\<close>

datatype step_result = Continue | Halt | Crash js_error

definition runNode ::
  "env \<Rightarrow> Node js_record \<Rightarrow> Edge js_record \<Rightarrow> string \<Rightarrow> run_state
     \<Rightarrow> (step_result \<times> run_state) option"
where
  "runNode env nodes edges nodeId s =
     (case map_of nodes nodeId of
        None \<Rightarrow>
          Some (Crash (TypeError ''Cannot read properties of undefined (reading 'data')''), s)
      | Some node \<Rightarrow>
          (let ins = gatherInputs edges (nodeOutputs s) nodeId
           in if isMuted (data node) then Some (Continue, runMuted node nodeId ins s)
              else (case dispatch env edges node nodeId ins
                           (updateNodeData nodeId
                              (\<lambda>d. d\<lparr>status := PROCESSING, content := Progress ''Starting...''\<rparr>) s) of
                      None \<Rightarrow> None
                    | Some (Inr output, s2) \<Rightarrow>
                        Some (Continue,
                          (updateNodeData nodeId (\<lambda>d. d\<lparr>status := COMPLETED, content := output\<rparr>) s2)
                            \<lparr>nodeOutputs := routeOutputs node output (nodeOutputs s2)\<rparr>)
                    | Some (Inl error, s2) \<Rightarrow>
                        Some (Halt,
                          (updateNodeData nodeId
                             (\<lambda>d. d\<lparr>status := ERROR, errorMessage := Some (message_of error)\<rparr>) s2)
                            \<lparr>isProcessing := False\<rparr>))))"

fun runNodes ::
  "env \<Rightarrow> Node js_record \<Rightarrow> Edge js_record \<Rightarrow> string list \<Rightarrow> run_state
     \<Rightarrow> (step_result \<times> run_state) option"
where
  "runNodes env nodes edges [] s = Some (Continue, s)"
| "runNodes env nodes edges (nodeId # rest) s =
     (case runNode env nodes edges nodeId s of
        None \<Rightarrow> None
      | Some (Continue, s') \<Rightarrow> runNodes env nodes edges rest s'
      | Some (r, s') \<Rightarrow> Some (r, s'))"

text \<open>The state in which the run starts: the nodes reset, the history and the outside
  world as they are.\<close>

definition initial_state :: "Node js_record \<Rightarrow> HistoryItem list \<Rightarrow> world \<Rightarrow> run_state" where
  "initial_state nodes h w =
     \<lparr>api_log = api_log w, random_draws = random_draws w, uuid_draws = uuid_draws w,
      delays = delays w, store = resetNodes nodes, history = h, nodeOutputs = [],
      isProcessing = True\<rparr>"

text \<open>\<^verbatim>\<open>runWorkflow\<close>: \<^const>\<open>None\<close> when the run never returns (a video operation that
  never completes), otherwise how the run ended and the state it left.\<close>

definition runWorkflow ::
  "env \<Rightarrow> Node js_record \<Rightarrow> Edge js_record \<Rightarrow> HistoryItem list \<Rightarrow> world
     \<Rightarrow> (step_result \<times> run_state) option"
where
  "runWorkflow env nodes edges h w =
     (case schedule nodes edges of
        Inl e \<Rightarrow> Some (Crash e, initial_state nodes h w)
      | Inr executionOrder \<Rightarrow>
          (case runNodes env nodes edges executionOrder (initial_state nodes h w) of
             None \<Rightarrow> None
           | Some (Continue, s) \<Rightarrow> Some (Continue, s\<lparr>isProcessing := False\<rparr>)
           | Some (r, s) \<Rightarrow> Some (r, s)))"

section \<open>Notions used to state and prove the properties\<close>

text \<open>Every edge's source is a key of the node map.\<close>

definition sources_present :: "string list \<Rightarrow> Edge list \<Rightarrow> bool" where
  "sources_present ns es = list_all (\<lambda>e. sourceNodeId e \<in> set ns) es"

text \<open>The entry exists and is a number other than \<^verbatim>\<open>NaN\<close>.\<close>

definition isNum :: "jsnum option \<Rightarrow> bool" where
  "isNum x = (case x of Some (Num n) \<Rightarrow> True | _ \<Rightarrow> False)"

text \<open>The targets of the edges leaving \<open>u\<close>, in edge order: what \<^verbatim>\<open>adj[u]\<close> holds
  once all edges are added.\<close>

definition targets_of :: "Edge list \<Rightarrow> string \<Rightarrow> string list" where
  "targets_of es u = map targetNodeId (filter (\<lambda>e. sourceNodeId e = u) es)"

text \<open>The number of edges into \<open>v\<close> whose source is not in \<open>D\<close>.\<close>

definition remaining :: "Edge list \<Rightarrow> string set \<Rightarrow> string \<Rightarrow> nat" where
  "remaining es D v = length (filter (\<lambda>e. targetNodeId e = v \<and> sourceNodeId e \<notin> D) es)"

text \<open>\<open>a\<close> occurs in the list and \<open>b\<close> occurs after the first occurrence of \<open>a\<close>.\<close>

fun precedes :: "'a \<Rightarrow> 'a \<Rightarrow> 'a list \<Rightarrow> bool" where
  "precedes a b [] = False"
| "precedes a b (x # xs) = (if x = a then b \<in> set xs else precedes a b xs)"

text \<open>The edges as a relation on node ids.\<close>

definition edge_pairs :: "Edge list \<Rightarrow> (string \<times> string) set" where
  "edge_pairs es = (\<lambda>e. (sourceNodeId e, targetNodeId e)) ` set es"

text \<open>The invariant of the \<^verbatim>\<open>while\<close> loop, for the node ids \<open>ns\<close> and the edges \<open>es\<close>.\<close>

definition kahn_inv ::
  "string list \<Rightarrow> Edge list \<Rightarrow> string list \<Rightarrow> string list \<Rightarrow> jsnum js_record \<Rightarrow> bool"
where
  "kahn_inv ns es q ord d \<longleftrightarrow>
     distinct (ord @ q) \<and> set (ord @ q) \<subseteq> set ns
     \<and> (\<forall>v \<in> set ns. map_of d v = Some (Num (int (remaining es (set ord) v))))
     \<and> (\<forall>v. v \<notin> set ns \<longrightarrow> \<not> isNum (map_of d v))
     \<and> (\<forall>v \<in> set ns. v \<in> set (ord @ q) \<longleftrightarrow> remaining es (set ord) v = 0)
     \<and> (\<forall>e \<in> set es. targetNodeId e \<in> set ord \<longrightarrow>
           precedes (sourceNodeId e) (targetNodeId e) ord)
     \<and> (\<forall>v \<in> set ord. (v, v) \<notin> (edge_pairs es)\<^sup>+)"

definition edge_rel :: "Edge js_record \<Rightarrow> (string \<times> string) set" where
  "edge_rel edges = edge_pairs (Object_values edges)"

text \<open>Every edge's source and target are keys of the node map.\<close>

definition endpoints_present :: "Node js_record \<Rightarrow> Edge js_record \<Rightarrow> bool" where
  "endpoints_present nodes edges =
     list_all (\<lambda>e. sourceNodeId e \<in> set (Object_keys nodes)
                  \<and> targetNodeId e \<in> set (Object_keys nodes)) (Object_values edges)"

text \<open>The keys of an object are pairwise different.\<close>

definition wf_record :: "'a js_record \<Rightarrow> bool" where
  "wf_record r = distinct (map fst r)"

text \<open>The node is on a cycle or reachable from a node on a cycle.\<close>

definition after_cycle :: "Edge js_record \<Rightarrow> string \<Rightarrow> bool" where
  "after_cycle edges v \<longleftrightarrow> (\<exists>w. (w, w) \<in> (edge_rel edges)\<^sup>+ \<and> (w, v) \<in> (edge_rel edges)\<^sup>*)"

text \<open>Example graphs.\<close>

definition ex_nodes3 :: "Node js_record" where
  "ex_nodes3 = [(''n2'', created ''n2'' OUTPUT_DISPLAY), (''n1'', created ''n1'' TEXT_GENERATOR),
                (''n0'', created ''n0'' TEXT_INPUT)]"

definition mkEdge :: "string \<Rightarrow> string \<Rightarrow> string \<Rightarrow> string \<Rightarrow> string \<Rightarrow> string \<times> Edge" where
  "mkEdge i s sh t th = (i, \<lparr>edge_id = i, sourceNodeId = s, sourceHandleId = sh,
                             targetNodeId = t, targetHandleId = th\<rparr>)"

definition ex_edges3 :: "Edge js_record" where
  "ex_edges3 = [mkEdge ''e1'' ''n1'' ''n1-output'' ''n2'' ''n2-input'',
                mkEdge ''e0'' ''n0'' ''n0-output'' ''n1'' ''n1-input'']"

definition ex_nodes_cyc :: "Node js_record" where
  "ex_nodes_cyc = [(''a'', created ''a'' TEXT_GENERATOR), (''b'', created ''b'' TEXT_GENERATOR),
                   (''c'', created ''c'' OUTPUT_DISPLAY)]"

definition ex_edges_cyc :: "Edge js_record" where
  "ex_edges_cyc = [mkEdge ''e0'' ''a'' ''a-output'' ''b'' ''b-input'',
                   mkEdge ''e1'' ''b'' ''b-output'' ''a'' ''a-input'',
                   mkEdge ''e2'' ''b'' ''b-output'' ''c'' ''c-input'']"

definition ex_nodes_cyc2 :: "Node js_record" where
  "ex_nodes_cyc2 = ex_nodes_cyc @ [(''e'', created ''e'' OUTPUT_DISPLAY), (''d'', created ''d'' TEXT_INPUT)]"

definition ex_edges_cyc2 :: "Edge js_record" where
  "ex_edges_cyc2 = ex_edges_cyc @ [mkEdge ''e3'' ''d'' ''d-output'' ''e'' ''e-input'']"

definition ex_edges_dangling :: "Edge js_record" where
  "ex_edges_dangling = [mkEdge ''e0'' ''n0'' ''n0-output'' ''n1'' ''n1-input'',
                        mkEdge ''e9'' ''gone'' ''gone-output'' ''n2'' ''n2-input'']"

text \<open>An environment in which every SDK call fails with the message \<^verbatim>\<open>boom\<close>, no message
  parses as JSON and every random number is one half; and the untouched outside world.\<close>

definition ex_env :: env where
  "ex_env = \<lparr>JSON_parse_error = (\<lambda>m. None), Math_random = (\<lambda>k. 1 / 2),
     randomUUID = (\<lambda>k. ''uuid-'' @ show_nat k),
     generateContent = (\<lambda>k req. Inl (Error ''boom'')),
     generateImages = (\<lambda>k p. Inl (Error ''boom'')),
     generateVideos = (\<lambda>k img p. Inl (Error ''boom'')),
     getVideosOperation = (\<lambda>k operation. Inl (Error ''boom'')),
     fetchObjectURL = (\<lambda>u. Inl (Error ''boom'')),
     API_KEY = ''key''\<rparr>"

definition world0 :: world where
  "world0 = \<lparr>api_log = [], random_draws = 0, uuid_draws = 0, delays = []\<rparr>"

text \<open>The second state differs from the first at most in the trace of SDK calls, random
  draws and waits.\<close>

definition frame :: "run_state \<Rightarrow> run_state \<Rightarrow> bool" where
  "frame s s' \<longleftrightarrow> store s' = store s \<and> history s' = history s \<and> nodeOutputs s' = nodeOutputs s
     \<and> isProcessing s' = isProcessing s \<and> uuid_draws s' = uuid_draws s"

text \<open>The second state has the same node ids as the first and the same node for every id
  other than \<open>nodeId\<close>.\<close>

definition same_others :: "string \<Rightarrow> run_state \<Rightarrow> run_state \<Rightarrow> bool" where
  "same_others nodeId s s' \<longleftrightarrow>
     (\<forall>m. m \<noteq> nodeId \<longrightarrow> map_of (store s') m = map_of (store s) m)
     \<and> dom (map_of (store s')) = dom (map_of (store s))"

text \<open>The edges, among the given ones, into the aggregating multi-image handle of a
  node.\<close>

definition multi_image_edges :: "string \<Rightarrow> Edge list \<Rightarrow> Edge list" where
  "multi_image_edges nodeId es =
     filter (\<lambda>e. targetNodeId e = nodeId \<and> targetHandleId e = nodeId @ ''-input-multi-image'') es"

text \<open>Example nodes, graphs and environments.\<close>

definition with_content :: "val \<Rightarrow> Node \<Rightarrow> Node" where
  "with_content v n = n\<lparr>data := (data n)\<lparr>content := v\<rparr>\<rparr>"

definition muted :: "Node \<Rightarrow> Node" where
  "muted n = n\<lparr>data := (data n)\<lparr>isMuted := True\<rparr>\<rparr>"

definition ex_nodes_text :: "Node js_record" where
  "ex_nodes_text =
     [(''n0'', with_content (Str ''a cat'') (created ''n0'' TEXT_INPUT)),
      (''n1'', created ''n1'' TEXT_GENERATOR), (''n2'', created ''n2'' OUTPUT_DISPLAY)]"

definition ex_nodes_muted :: "Node js_record" where
  "ex_nodes_muted =
     [(''n0'', with_content (Str ''a cat'') (created ''n0'' TEXT_INPUT)),
      (''n1'', muted (created ''n1'' TEXT_GENERATOR)), (''n2'', created ''n2'' OUTPUT_DISPLAY)]"

definition ex_nodes_muted_input :: "Node js_record" where
  "ex_nodes_muted_input =
     [(''n0'', muted (with_content (Str ''a cat'') (created ''n0'' TEXT_INPUT)))]"

definition ex_presets :: "string \<rightharpoonup> PresetConfig" where
  "ex_presets = [''merge'' \<mapsto>
     \<lparr>cfg_label = ''Merge'', cfg_prompt = ''Combine the images'',
      cfg_inputs = [(''First'', T_image), (''Second'', T_image)],
      cfg_outputs = [(''Image'', T_image), (''Text'', T_text)]\<rparr>]"

definition ex_preset_node :: Node where
  "ex_preset_node = (case createNode ex_presets ''p'' PROMPT_PRESET (Some ''merge'') of
     Inr n \<Rightarrow> n | Inl e \<Rightarrow> created ''p'' PROMPT_PRESET)"

definition ex_edges_multi :: "Edge js_record" where
  "ex_edges_multi = [mkEdge ''e0'' ''a'' ''a-output'' ''p'' ''p-input-multi-image'',
                     mkEdge ''e1'' ''b'' ''b-output'' ''p'' ''p-input-multi-image'',
                     mkEdge ''e2'' ''p'' ''p-output-0'' ''o'' ''o-input'']"

text \<open>Two image inputs wired to the multi-image handle of a preset node; in the second
  graph the edges carry the ids \<^verbatim>\<open>10\<close>, \<^verbatim>\<open>9\<close> and \<^verbatim>\<open>11\<close> of a workflow loaded from a file
  (\<^verbatim>\<open>Object.fromEntries(workflow.edges.map(e => [e.id, e]))\<close>), created in that order.\<close>

definition ex_nodes_preset :: "Node js_record" where
  "ex_nodes_preset =
     [(''a'', with_content (Str ''data:image/png;base64,QQ=='') (created ''a'' IMAGE_INPUT)),
      (''b'', with_content (Str ''data:image/png;base64,Qg=='') (created ''b'' IMAGE_INPUT)),
      (''p'', ex_preset_node), (''o'', created ''o'' OUTPUT_DISPLAY)]"

definition ex_edges_numeric :: "Edge js_record" where
  "ex_edges_numeric = [mkEdge ''10'' ''a'' ''a-output'' ''p'' ''p-input-multi-image'',
                       mkEdge ''9'' ''b'' ''b-output'' ''p'' ''p-input-multi-image'',
                       mkEdge ''11'' ''p'' ''p-output-0'' ''o'' ''o-input'']"

definition ex_nodes_editor :: "Node js_record" where
  "ex_nodes_editor =
     [(''t'', with_content (Str ''make it blue'') (created ''t'' TEXT_INPUT)),
      (''ed'', created ''ed'' IMAGE_EDITOR), (''out'', created ''out'' OUTPUT_DISPLAY)]"

definition ex_edges_unwired :: "Edge js_record" where
  "ex_edges_unwired = [mkEdge ''e0'' ''ed'' ''ed-output-image'' ''out'' ''out-input'']"

definition ex_edges_editor :: "Edge js_record" where
  "ex_edges_editor = [mkEdge ''e0'' ''img'' ''img-output'' ''ed'' ''ed-input-image'',
                      mkEdge ''e1'' ''t'' ''t-output'' ''ed'' ''ed-input-text'']"

text \<open>An environment whose SDK calls succeed: the content call answers with a text part
  and an image part, the image call with one PNG image.\<close>

definition ex_env_ok :: env where
  "ex_env_ok = ex_env
     \<lparr>generateContent := (\<lambda>k req. Inr \<lparr>resp_text = Str ''a described cat'',
          candidates = [[\<lparr>part_text = Some ''done'', part_inlineData = None\<rparr>,
                         \<lparr>part_text = None, part_inlineData = Some ''QkxVRQ==''\<rparr>]]\<rparr>),
      generateImages := (\<lambda>k p. Inr \<lparr>generatedImages =
          [Some \<lparr>imageBytes = ''Q0FU'', img_mimeType = Some ''image/png''\<rparr>]\<rparr>)\<rparr>"

text \<open>The state in which a node of a graph runs when \<open>outs\<close> are the outputs produced so
  far.\<close>

definition ex_state :: "Node js_record \<Rightarrow> val js_record \<Rightarrow> run_state" where
  "ex_state nodes outs = (initial_state nodes [] world0)\<lparr>nodeOutputs := outs\<rparr>"

section \<open>Properties\<close>

subsection \<open>Enumeration of a record\<close>

lemmas enum_defs = own_entries_def is_array_index_def is_digit_def int_of_digits_def digit_val_def

lemma set_own_entries: "set (own_entries r) = set r"
  by (auto simp: own_entries_def)

lemma set_Object_keys: "set (Object_keys r) = fst ` set r"
  by (simp add: Object_keys_def set_own_entries)

lemma set_Object_values: "set (Object_values r) = snd ` set r"
  by (simp add: Object_values_def set_own_entries)

lemma part_disj: "fst ` {x \<in> A. P (fst x)} \<inter> fst ` {x \<in> A. \<not> P (fst x)} = {}"
proof -
  have "\<And>k. k \<in> fst ` {x \<in> A. P (fst x)} \<Longrightarrow> P k" by (erule imageE) simp
  moreover have "\<And>k. k \<in> fst ` {x \<in> A. \<not> P (fst x)} \<Longrightarrow> \<not> P k" by (erule imageE) simp
  ultimately show ?thesis by blast
qed

lemma distinct_Object_keys:
  assumes "distinct (map fst r)"
  shows "distinct (Object_keys r)"
proof -
  let ?P = "\<lambda>p::string \<times> 'a. is_array_index (fst p)"
  let ?a = "sort_key (\<lambda>p. int_of_digits (fst p)) (filter ?P r)"
  let ?b = "filter (\<lambda>p. \<not> ?P p) r"
  from assms have d: "distinct r" and i: "inj_on fst (set r)" by (simp_all add: distinct_map)
  have "inj_on fst (set (filter ?P r))" by (rule inj_on_subset[OF i]) simp
  with d have "distinct (map fst ?a)"
    by (simp add: distinct_map)
  moreover have "distinct (map fst ?b)"
    using assms by (rule distinct_map_filter)
  moreover have "set (map fst ?a) \<inter> set (map fst ?b) = {}" by (simp add: part_disj)
  ultimately show ?thesis by (simp add: Object_keys_def own_entries_def)
qed

lemma own_entries_plain:
  assumes "\<forall>k \<in> fst ` set r. \<not> is_array_index k"
  shows "own_entries r = r"
proof -
  from assms have "filter (\<lambda>p. is_array_index (fst p)) r = []" by (auto simp: filter_empty_conv)
  moreover from assms have "filter (\<lambda>p. \<not> is_array_index (fst p)) r = r"
    by (auto simp: filter_id_conv)
  ultimately show ?thesis by (simp add: own_entries_def)
qed

lemma own_entries_update_fresh:
  assumes "k \<notin> fst ` set r" and "\<not> is_array_index k"
  shows "own_entries (AList.update k v r) = own_entries r @ [(k, v)]"
proof -
  from assms(1) have u: "AList.update k v r = r @ [(k, v)]"
    by (induction r) auto
  show ?thesis unfolding u using assms(2) by (simp add: own_entries_def)
qed

lemma Object_values_plain:
  "\<forall>k \<in> set (map fst r). \<not> is_array_index k \<Longrightarrow> Object_values r = map snd r"
  by (simp add: Object_values_def own_entries_plain)

lemma Object_values_update_fresh:
  "k \<notin> set (map fst r) \<Longrightarrow> \<not> is_array_index k
     \<Longrightarrow> Object_values (AList.update k v r) = Object_values r @ [v]"
  by (simp add: Object_values_def own_entries_update_fresh)

subsection \<open>The scheduler\<close>

lemma map_of_foldl_update:
  "map_of (foldl (\<lambda>acc i. AList.update i v acc) acc ns) k
     = (if k \<in> set ns then Some v else map_of acc k)"
  by (induction ns arbitrary: acc) (auto simp: update_conv')

lemma map_of_init_record:
  "map_of (init_record v ns) k = (if k \<in> set ns then Some v else None)"
  by (simp add: init_record_def map_of_foldl_update)

lemma isNum_incr: "isNum (Some (incr x)) = isNum x"
  by (cases x rule: incr.cases) (auto simp: isNum_def)

lemma isNum_decr: "isNum (Some (decr x)) = isNum x"
  by (cases x rule: decr.cases) (auto simp: isNum_def)

lemma addEdges_ok:
  assumes "\<forall>e \<in> set es. map_of adj (sourceNodeId e) \<noteq> None"
  shows "\<exists>adj' deg'. addEdges es (adj, deg) = Inr (adj', deg')
     \<and> (\<forall>u ts. map_of adj u = Some ts \<longrightarrow> map_of adj' u = Some (ts @ targets_of es u))
     \<and> (\<forall>u. map_of adj u = None \<longrightarrow> map_of adj' u = None)
     \<and> (\<forall>v n. map_of deg v = Some (Num n) \<longrightarrow>
           map_of deg' v = Some (Num (n + int (length (filter (\<lambda>e. targetNodeId e = v) es)))))
     \<and> (\<forall>v. \<not> isNum (map_of deg v) \<longrightarrow> \<not> isNum (map_of deg' v))"
  using assms
proof (induction es arbitrary: adj deg)
  case Nil
  show ?case by (simp add: targets_of_def)
next
  case (Cons e es)
  from Cons.prems obtain ts where ts: "map_of adj (sourceNodeId e) = Some ts" by auto
  let ?adj1 = "AList.update (sourceNodeId e) (ts @ [targetNodeId e]) adj"
  let ?deg1 = "AList.update (targetNodeId e) (incr (map_of deg (targetNodeId e))) deg"
  have step: "addEdge e (adj, deg) = Inr (?adj1, ?deg1)"
    by (simp add: addEdge_def ts)
  have pre: "\<forall>e' \<in> set es. map_of ?adj1 (sourceNodeId e') \<noteq> None"
    using Cons.prems by (auto simp: update_conv')
  from Cons.IH[OF pre, of ?deg1] obtain adj' deg' where
    r: "addEdges es (?adj1, ?deg1) = Inr (adj', deg')"
    and a1: "\<And>u ts. map_of ?adj1 u = Some ts \<Longrightarrow> map_of adj' u = Some (ts @ targets_of es u)"
    and a2: "\<And>u. map_of ?adj1 u = None \<Longrightarrow> map_of adj' u = None"
    and d1: "\<And>v n. map_of ?deg1 v = Some (Num n) \<Longrightarrow>
           map_of deg' v = Some (Num (n + int (length (filter (\<lambda>e. targetNodeId e = v) es))))"
    and d2: "\<And>v. \<not> isNum (map_of ?deg1 v) \<Longrightarrow> \<not> isNum (map_of deg' v)"
    by blast
  have "addEdges (e # es) (adj, deg) = Inr (adj', deg')" using step r by simp
  moreover have "map_of adj' u = Some (ts' @ targets_of (e # es) u)" if "map_of adj u = Some ts'" for u ts'
  proof (cases "u = sourceNodeId e")
    case True
    with that ts have "ts' = ts" by simp
    with True a1[of u "ts @ [targetNodeId e]"] show ?thesis
      by (simp add: update_conv' targets_of_def)
  next
    case False
    with that a1[of u ts'] show ?thesis by (simp add: update_conv' targets_of_def)
  qed
  moreover have "map_of adj' u = None" if "map_of adj u = None" for u
  proof -
    from that ts have "u \<noteq> sourceNodeId e" by auto
    with that have "map_of ?adj1 u = None" by (simp add: update_conv')
    then show ?thesis by (rule a2)
  qed
  moreover have "map_of deg' v = Some (Num (n + int (length (filter (\<lambda>e. targetNodeId e = v) (e # es)))))"
    if "map_of deg v = Some (Num n)" for v n
  proof (cases "v = targetNodeId e")
    case True
    with that d1[of v "n + 1"] show ?thesis by (simp add: update_conv')
  next
    case False
    with that d1[of v n] show ?thesis by (simp add: update_conv')
  qed
  moreover have "\<not> isNum (map_of deg' v)" if "\<not> isNum (map_of deg v)" for v
  proof (cases "v = targetNodeId e")
    case True
    with that have "\<not> isNum (map_of ?deg1 v)" by (simp add: update_conv' isNum_incr)
    then show ?thesis by (rule d2)
  next
    case False
    with that have "\<not> isNum (map_of ?deg1 v)" by (simp add: update_conv')
    then show ?thesis by (rule d2)
  qed
  ultimately show ?case by blast
qed

lemma addEdges_fail:
  assumes "\<exists>e \<in> set es. map_of adj (sourceNodeId e) = None"
  shows "\<exists>m. addEdges es (adj, deg) = Inl (TypeError m)"
  using assms
proof (induction es arbitrary: adj deg)
  case Nil
  then show ?case by simp
next
  case (Cons e es)
  show ?case
  proof (cases "map_of adj (sourceNodeId e)")
    case None
    then show ?thesis by (simp add: addEdge_def)
  next
    case (Some ts)
    let ?adj1 = "AList.update (sourceNodeId e) (ts @ [targetNodeId e]) adj"
    let ?deg1 = "AList.update (targetNodeId e) (incr (map_of deg (targetNodeId e))) deg"
    from Some Cons.prems obtain e' where e': "e' \<in> set es" "map_of adj (sourceNodeId e') = None"
      by auto
    with Some have "sourceNodeId e' \<noteq> sourceNodeId e" by auto
    with e' have "\<exists>e' \<in> set es. map_of ?adj1 (sourceNodeId e') = None"
      by (auto simp: update_conv')
    from Cons.IH[OF this, of ?deg1] Some show ?thesis by (simp add: addEdge_def)
  qed
qed

lemma fold_visit_props:
  "\<exists>pushed. fst (fold visit vs (q, d)) = q @ pushed \<and> distinct pushed
     \<and> set pushed = {v \<in> set vs. \<exists>n. map_of d v = Some (Num n) \<and> 1 \<le> n \<and> n \<le> int (count_list vs v)}
     \<and> (\<forall>v n. map_of d v = Some (Num n) \<longrightarrow>
            map_of (snd (fold visit vs (q, d))) v = Some (Num (n - int (count_list vs v))))
     \<and> (\<forall>v. \<not> isNum (map_of d v) \<longrightarrow> \<not> isNum (map_of (snd (fold visit vs (q, d))) v))"
proof (induction vs arbitrary: q d)
  case Nil
  show ?case by simp
next
  case (Cons w vs)
  let ?x = "decr (map_of d w)"
  let ?d1 = "AList.update w ?x d"
  let ?q1 = "if ?x = Num 0 then q @ [w] else q"
  have v: "visit w (q, d) = (?q1, ?d1)" by (simp add: visit_def Let_def)
  from Cons.IH[of ?q1 ?d1] obtain pushed where
    p1: "fst (fold visit vs (?q1, ?d1)) = ?q1 @ pushed" and p2: "distinct pushed"
    and p3: "set pushed = {v \<in> set vs. \<exists>n. map_of ?d1 v = Some (Num n) \<and> 1 \<le> n \<and> n \<le> int (count_list vs v)}"
    and p4: "\<And>v n. map_of ?d1 v = Some (Num n) \<Longrightarrow>
            map_of (snd (fold visit vs (?q1, ?d1))) v = Some (Num (n - int (count_list vs v)))"
    and p5: "\<And>v. \<not> isNum (map_of ?d1 v) \<Longrightarrow> \<not> isNum (map_of (snd (fold visit vs (?q1, ?d1))) v)"
    by blast
  let ?pushed = "if ?x = Num 0 then w # pushed else pushed"
  have f: "fold visit (w # vs) (q, d) = fold visit vs (?q1, ?d1)" using v by simp
  have c1: "fst (fold visit (w # vs) (q, d)) = q @ ?pushed" using p1 f by simp
  have wnot: "w \<notin> set pushed" if "?x = Num 0"
    using that p3 by (auto simp: update_conv')
  have c2: "distinct ?pushed" using p2 wnot by simp
  have c3: "set ?pushed = {v \<in> set (w # vs). \<exists>n. map_of d v = Some (Num n) \<and> 1 \<le> n
                 \<and> n \<le> int (count_list (w # vs) v)}" (is "?L = ?R")
  proof (rule set_eqI)
    fix v
    show "v \<in> ?L \<longleftrightarrow> v \<in> ?R"
    proof (cases "v = w")
      case False
      then show ?thesis using p3 by (auto simp: update_conv')
    next
      case True
      show ?thesis
      proof (cases "map_of d w" rule: decr.cases)
        case 1
        then show ?thesis using True p3 by (auto simp: update_conv')
      next
        case 2
        then show ?thesis using True p3 by (auto simp: update_conv')
      next
        case (3 n)
        have "count_list vs w = 0 \<longleftrightarrow> w \<notin> set vs" by (rule count_list_0_iff)
        then have cw: "w \<in> set vs \<longleftrightarrow> 1 \<le> int (count_list vs w)" by auto
        show ?thesis using True p3 3 cw by (auto simp: update_conv')
      qed
    qed
  qed
  have c4: "map_of (snd (fold visit (w # vs) (q, d))) v = Some (Num (n - int (count_list (w # vs) v)))"
    if "map_of d v = Some (Num n)" for v n
  proof (cases "v = w")
    case True
    with that p4[of v "n - 1"] f show ?thesis by (simp add: update_conv')
  next
    case False
    with that p4[of v n] f show ?thesis by (simp add: update_conv')
  qed
  have c5: "\<not> isNum (map_of (snd (fold visit (w # vs) (q, d))) v)" if "\<not> isNum (map_of d v)" for v
  proof -
    have "\<not> isNum (map_of ?d1 v)" using that by (cases "v = w") (simp_all add: update_conv' isNum_decr)
    from p5[OF this] f show ?thesis by simp
  qed
  from c1 c2 c3 c4 c5 show ?case by blast
qed

lemma precedes_append: "precedes a b xs \<Longrightarrow> precedes a b (xs @ ys)"
  by (induction xs) auto

lemma precedes_snoc: "a \<in> set xs \<Longrightarrow> precedes a b (xs @ [b])"
  by (induction xs) auto

lemma remaining_insert:
  "u \<notin> D \<Longrightarrow> remaining es D v = remaining es (insert u D) v + count_list (targets_of es u) v"
  unfolding remaining_def targets_of_def
  by (induction es) auto

lemma remaining_zero_iff:
  "remaining es D v = 0 \<longleftrightarrow> (\<forall>e \<in> set es. targetNodeId e = v \<longrightarrow> sourceNodeId e \<in> D)"
  unfolding remaining_def by (auto simp: filter_empty_conv)

lemma pred_closed_rtrancl:
  assumes cl: "\<And>e. e \<in> set es \<Longrightarrow> targetNodeId e \<in> S \<Longrightarrow> sourceNodeId e \<in> S"
    and "(y, z) \<in> (edge_pairs es)\<^sup>*" and "z \<in> S"
  shows "y \<in> S"
  using assms(2,3)
proof (induction rule: converse_rtrancl_induct)
  case base
  then show ?case by simp
next
  case (step y w)
  from step have "w \<in> S" by simp
  moreover from step(1) obtain e where "e \<in> set es" "sourceNodeId e = y" "targetNodeId e = w"
    by (auto simp: edge_pairs_def)
  ultimately show ?case using cl by blast
qed

lemma kahn_inv_step:
  assumes inv: "kahn_inv ns es (u # q) ord d"
    and adj: "successors adj u = targets_of es u"
  shows "kahn_inv ns es (fst (fold visit (successors adj u) (q, d))) (ord @ [u])
           (snd (fold visit (successors adj u) (q, d)))"
proof -
  let ?vs = "targets_of es u"
  let ?r = "fold visit ?vs (q, d)"
  let ?rem = "remaining es (set ord)"
  let ?rem' = "remaining es (set (ord @ [u]))"
  from inv have dist: "distinct (ord @ u # q)" and sub: "set (ord @ u # q) \<subseteq> set ns"
    and deg: "\<And>v. v \<in> set ns \<Longrightarrow> map_of d v = Some (Num (int (?rem v)))"
    and nonum: "\<And>v. v \<notin> set ns \<Longrightarrow> \<not> isNum (map_of d v)"
    and mem: "\<And>v. v \<in> set ns \<Longrightarrow> v \<in> set (ord @ u # q) \<longleftrightarrow> ?rem v = 0"
    and topo: "\<And>e. e \<in> set es \<Longrightarrow> targetNodeId e \<in> set ord \<Longrightarrow>
                 precedes (sourceNodeId e) (targetNodeId e) ord"
    and nocyc: "\<And>v. v \<in> set ord \<Longrightarrow> (v, v) \<notin> (edge_pairs es)\<^sup>+"
    unfolding kahn_inv_def by blast+
  from dist have u_ord: "u \<notin> set ord" by auto
  from sub have u_ns: "u \<in> set ns" by auto
  have remeq: "?rem v = ?rem' v + count_list ?vs v" for v
    using remaining_insert[OF u_ord, of es v] by simp
  from fold_visit_props[of ?vs q d] obtain pushed where
    p1: "fst ?r = q @ pushed" and p2: "distinct pushed"
    and p3: "set pushed = {v \<in> set ?vs. \<exists>n. map_of d v = Some (Num n) \<and> 1 \<le> n
                              \<and> n \<le> int (count_list ?vs v)}"
    and p4: "\<And>v n. map_of d v = Some (Num n) \<Longrightarrow>
               map_of (snd ?r) v = Some (Num (n - int (count_list ?vs v)))"
    and p5: "\<And>v. \<not> isNum (map_of d v) \<Longrightarrow> \<not> isNum (map_of (snd ?r) v)"
    by blast
  have pushed_ns: "v \<in> set ns" if "v \<in> set pushed" for v
  proof (rule ccontr)
    assume "v \<notin> set ns"
    from nonum[OF this] that p3 show False by (auto simp: isNum_def)
  qed
  have pushed_iff: "v \<in> set pushed \<longleftrightarrow> 1 \<le> ?rem v \<and> ?rem' v = 0" if "v \<in> set ns" for v
  proof -
    have cz: "count_list ?vs v = 0 \<longleftrightarrow> v \<notin> set ?vs" by (rule count_list_0_iff)
    from deg[OF that] p3 have "v \<in> set pushed \<longleftrightarrow>
        v \<in> set ?vs \<and> 1 \<le> ?rem v \<and> ?rem v \<le> count_list ?vs v" by auto
    with remeq[of v] cz show ?thesis by auto
  qed
  have rem_le: "?rem' v \<le> ?rem v" for v using remeq[of v] by simp
  have c1: "distinct ((ord @ [u]) @ fst ?r)"
  proof -
    have "set pushed \<inter> set (ord @ u # q) = {}"
    proof (rule ccontr)
      assume "set pushed \<inter> set (ord @ u # q) \<noteq> {}"
      then obtain v where v: "v \<in> set pushed" "v \<in> set (ord @ u # q)" by blast
      from v(1) have vns: "v \<in> set ns" by (rule pushed_ns)
      from mem[OF vns] v(2) have "?rem v = 0" by simp
      with pushed_iff[OF vns] v(1) show False by simp
    qed
    with dist p2 p1 show ?thesis by auto
  qed
  have c2: "set ((ord @ [u]) @ fst ?r) \<subseteq> set ns"
    using sub p1 pushed_ns by auto
  have c3: "map_of (snd ?r) v = Some (Num (int (?rem' v)))" if "v \<in> set ns" for v
    using p4[OF deg[OF that]] remeq[of v] by simp
  have c4: "\<not> isNum (map_of (snd ?r) v)" if "v \<notin> set ns" for v
    using p5[OF nonum[OF that]] .
  have c5: "v \<in> set ((ord @ [u]) @ fst ?r) \<longleftrightarrow> ?rem' v = 0" if "v \<in> set ns" for v
  proof
    assume "v \<in> set ((ord @ [u]) @ fst ?r)"
    then have "v \<in> set (ord @ u # q) \<or> v \<in> set pushed" using p1 by auto
    then show "?rem' v = 0"
    proof
      assume "v \<in> set (ord @ u # q)"
      with mem[OF that] have "?rem v = 0" by simp
      with rem_le[of v] show ?thesis by simp
    next
      assume "v \<in> set pushed"
      with pushed_iff[OF that] show ?thesis by simp
    qed
  next
    assume z: "?rem' v = 0"
    show "v \<in> set ((ord @ [u]) @ fst ?r)"
    proof (cases "?rem v = 0")
      case True
      with mem[OF that] p1 show ?thesis by auto
    next
      case False
      with z pushed_iff[OF that] have "v \<in> set pushed" by simp
      with p1 show ?thesis by simp
    qed
  qed
  have u_rem: "?rem u = 0" using mem[OF u_ns] by simp
  then have u_preds: "sourceNodeId e \<in> set ord" if "e \<in> set es" "targetNodeId e = u" for e
    using that by (simp add: remaining_zero_iff)
  have closed: "sourceNodeId e \<in> set ord" if "e \<in> set es" "targetNodeId e \<in> set ord" for e
  proof -
    from sub that(2) have tn: "targetNodeId e \<in> set ns" by auto
    from mem[OF tn] that(2) have "?rem (targetNodeId e) = 0" by simp
    with that(1) show ?thesis by (simp add: remaining_zero_iff)
  qed
  have c6: "precedes (sourceNodeId e) (targetNodeId e) (ord @ [u])"
    if "e \<in> set es" "targetNodeId e \<in> set (ord @ [u])" for e
  proof (cases "targetNodeId e \<in> set ord")
    case True
    from precedes_append[OF topo[OF that(1) True]] show ?thesis .
  next
    case False
    with that(2) have t: "targetNodeId e = u" by simp
    from u_preds[OF that(1) t] have "sourceNodeId e \<in> set ord" .
    from precedes_snoc[OF this, of u] t show ?thesis by simp
  qed
  have c7: "(v, v) \<notin> (edge_pairs es)\<^sup>+" if "v \<in> set (ord @ [u])" for v
  proof (cases "v \<in> set ord")
    case True
    then show ?thesis by (rule nocyc)
  next
    case False
    with that have vu: "v = u" by simp
    show ?thesis
    proof
      assume "(v, v) \<in> (edge_pairs es)\<^sup>+"
      with vu have "(u, u) \<in> (edge_pairs es)\<^sup>+" by simp
      then obtain y where y: "(u, y) \<in> (edge_pairs es)\<^sup>*" "(y, u) \<in> edge_pairs es"
        by (auto dest: tranclD2)
      from y(2) obtain e where "e \<in> set es" "sourceNodeId e = y" "targetNodeId e = u"
        by (auto simp: edge_pairs_def)
      with u_preds have "y \<in> set ord" by blast
      from pred_closed_rtrancl[of es "set ord", OF closed y(1) this] u_ord show False by simp
    qed
  qed
  have "kahn_inv ns es (fst ?r) (ord @ [u]) (snd ?r)"
    unfolding kahn_inv_def using c1 c2 c3 c4 c5 c6 c7 by blast
  with adj show ?thesis by simp
qed

lemma kahn_loop_inv:
  assumes "kahn_inv ns es q ord d"
    and "\<And>u. u \<in> set ns \<Longrightarrow> successors adj u = targets_of es u"
  shows "\<exists>d'. kahn_inv ns es [] (kahn_loop adj q ord d) d'"
  using assms
proof (induction adj q ord d rule: kahn_loop.induct)
  case (1 adj ord d)
  then show ?case by auto
next
  case (2 adj u q ord d)
  from "2.prems"(1) have "u \<in> set ns" unfolding kahn_inv_def by auto
  with "2.prems"(2) have a: "successors adj u = targets_of es u" by blast
  from kahn_inv_step[OF "2.prems"(1) a] "2.IH" "2.prems"(2) show ?case by simp
qed

lemma schedule_inv:
  assumes d: "distinct ns" and ns: "ns = Object_keys nodes" and es: "es = Object_values edges"
    and sp: "sources_present ns es"
  shows "\<exists>ord d'. schedule nodes edges = Inr ord \<and> kahn_inv ns es [] ord d'"
proof -
  let ?adj0 = "init_record ([]::string list) ns" and ?deg0 = "init_record (Num 0) ns"
  from sp have "\<forall>e \<in> set es. map_of ?adj0 (sourceNodeId e) \<noteq> None"
    by (simp add: sources_present_def list_all_iff map_of_init_record)
  from addEdges_ok[OF this, of ?deg0] obtain adj deg where
    r: "addEdges es (?adj0, ?deg0) = Inr (adj, deg)"
    and a1: "\<And>u ts. map_of ?adj0 u = Some ts \<Longrightarrow> map_of adj u = Some (ts @ targets_of es u)"
    and d1: "\<And>v n. map_of ?deg0 v = Some (Num n) \<Longrightarrow>
           map_of deg v = Some (Num (n + int (length (filter (\<lambda>e. targetNodeId e = v) es))))"
    and d2: "\<And>v. \<not> isNum (map_of ?deg0 v) \<Longrightarrow> \<not> isNum (map_of deg v)"
    by blast
  let ?q = "filter (\<lambda>i. map_of deg i = Some (Num 0)) ns"
  have sched: "schedule nodes edges = Inr (kahn_loop adj ?q [] deg)"
    using r ns es by (simp add: schedule_def Let_def)
  have adj: "successors adj u = targets_of es u" if "u \<in> set ns" for u
    using a1[of u "[]"] that by (simp add: successors_def map_of_init_record)
  have degv: "map_of deg v = Some (Num (int (remaining es {} v)))" if "v \<in> set ns" for v
    using d1[of v 0] that by (simp add: map_of_init_record remaining_def)
  have nonum: "\<not> isNum (map_of deg v)" if "v \<notin> set ns" for v
    using d2[of v] that by (simp add: map_of_init_record isNum_def)
  have "kahn_inv ns es ?q [] deg"
    unfolding kahn_inv_def using d degv nonum by auto
  from kahn_loop_inv[OF this adj] sched show ?thesis by auto
qed

lemma schedule_members:
  assumes inv: "kahn_inv ns es [] ord d" and sp: "sources_present ns es"
  shows "v \<in> set ord \<longleftrightarrow>
    v \<in> set ns \<and> \<not> (\<exists>w. (w, w) \<in> (edge_pairs es)\<^sup>+ \<and> (w, v) \<in> (edge_pairs es)\<^sup>*)"
proof -
  let ?E = "edge_pairs es"
  from inv have sub: "set ord \<subseteq> set ns"
    and mem: "\<And>v. v \<in> set ns \<Longrightarrow> v \<in> set ord \<longleftrightarrow> remaining es (set ord) v = 0"
    and nocyc: "\<And>v. v \<in> set ord \<Longrightarrow> (v, v) \<notin> ?E\<^sup>+"
    unfolding kahn_inv_def by auto
  have closed: "sourceNodeId e \<in> set ord" if "e \<in> set es" "targetNodeId e \<in> set ord" for e
  proof -
    from sub that(2) have tn: "targetNodeId e \<in> set ns" by auto
    from mem[OF tn] that(2) have "remaining es (set ord) (targetNodeId e) = 0" by simp
    with that(1) show ?thesis by (simp add: remaining_zero_iff)
  qed
  show ?thesis
  proof
    assume v: "v \<in> set ord"
    have "\<not> (\<exists>w. (w, w) \<in> ?E\<^sup>+ \<and> (w, v) \<in> ?E\<^sup>*)"
    proof
      assume "\<exists>w. (w, w) \<in> ?E\<^sup>+ \<and> (w, v) \<in> ?E\<^sup>*"
      then obtain w where w: "(w, w) \<in> ?E\<^sup>+" "(w, v) \<in> ?E\<^sup>*" by blast
      from pred_closed_rtrancl[of es "set ord", OF closed w(2) v] have "w \<in> set ord" .
      from nocyc[OF this] w(1) show False by simp
    qed
    with v sub show "v \<in> set ns \<and> \<not> (\<exists>w. (w, w) \<in> ?E\<^sup>+ \<and> (w, v) \<in> ?E\<^sup>*)" by auto
  next
    assume a: "v \<in> set ns \<and> \<not> (\<exists>w. (w, w) \<in> ?E\<^sup>+ \<and> (w, v) \<in> ?E\<^sup>*)"
    show "v \<in> set ord"
    proof (rule ccontr)
      assume vn: "v \<notin> set ord"
      define A where "A = {x \<in> set ns - set ord. (x, v) \<in> ?E\<^sup>*}"
      define R where "R = ?E \<inter> (A \<times> A)"
      have vA: "v \<in> A" using a vn by (simp add: A_def)
      have finR: "finite R" unfolding R_def edge_pairs_def by simp
      have haspred: "\<exists>y \<in> A. (y, z) \<in> R" if "z \<in> A" for z
      proof -
        from that have z: "z \<in> set ns" "z \<notin> set ord" "(z, v) \<in> ?E\<^sup>*" by (auto simp: A_def)
        from mem[OF z(1)] z(2) have "remaining es (set ord) z \<noteq> 0" by simp
        then obtain e where e: "e \<in> set es" "targetNodeId e = z" "sourceNodeId e \<notin> set ord"
          by (auto simp: remaining_zero_iff)
        from sp e(1) have "sourceNodeId e \<in> set ns"
          by (simp add: sources_present_def list_all_iff)
        moreover from e have yz: "(sourceNodeId e, z) \<in> ?E" by (auto simp: edge_pairs_def)
        moreover from yz z(3) have "(sourceNodeId e, v) \<in> ?E\<^sup>*" by (rule converse_rtrancl_into_rtrancl)
        ultimately have "sourceNodeId e \<in> A" using e(3) by (simp add: A_def)
        with yz that show ?thesis unfolding R_def by blast
      qed
      have "\<not> acyclic R"
      proof
        assume "acyclic R"
        with finR have "wf R" by (rule finite_acyclic_wf)
        from wfE_min[OF this vA] obtain z where "z \<in> A" "\<And>y. (y, z) \<in> R \<Longrightarrow> y \<notin> A" by blast
        with haspred[of z] show False by blast
      qed
      then obtain w where w: "(w, w) \<in> R\<^sup>+" by (auto simp: acyclic_def)
      have "R \<subseteq> A \<times> A" by (simp add: R_def)
      from trancl_subset_Sigma[OF this] w have "w \<in> A" by blast
      then have "(w, v) \<in> ?E\<^sup>*" by (simp add: A_def)
      moreover have "R \<subseteq> ?E" by (simp add: R_def)
      from trancl_mono[OF w this] have "(w, w) \<in> ?E\<^sup>+" .
      ultimately show False using a by blast
    qed
  qed
qed

lemma acyclic_empty: "acyclic {}"
  by (simp add: acyclic_def)

text \<open>
  Claim C1: for every acyclic graph whose edges all connect present nodes, the
  scheduling phase of \<^verbatim>\<open>runWorkflow\<close> returns an order in which every node of the graph
  occurs exactly once and in which, for every edge, the source occurs before the target.
\<close>

theorem schedule_topological:
  assumes "wf_record nodes" and "endpoints_present nodes edges" and "acyclic (edge_rel edges)"
  shows "\<exists>order. schedule nodes edges = Inr order \<and> distinct order
     \<and> set order = set (Object_keys nodes)
     \<and> (\<forall>e \<in> set (Object_values edges).
            precedes (sourceNodeId e) (targetNodeId e) order)"
proof -
  let ?ns = "Object_keys nodes" and ?es = "Object_values edges"
  from assms(1) have d: "distinct ?ns" by (simp add: wf_record_def distinct_Object_keys)
  from assms(2) have sp: "sources_present ?ns ?es"
    and tp: "\<And>e. e \<in> set ?es \<Longrightarrow> targetNodeId e \<in> set ?ns"
    by (auto simp: endpoints_present_def sources_present_def list_all_iff)
  from schedule_inv[OF d refl refl sp] obtain ord d' where
    s: "schedule nodes edges = Inr ord" and inv: "kahn_inv ?ns ?es [] ord d'" by blast
  from assms(3) have nc: "\<And>w. (w, w) \<notin> (edge_pairs ?es)\<^sup>+"
    by (simp add: acyclic_def edge_rel_def)
  from schedule_members[OF inv sp] nc have m: "set ord = set ?ns" by auto
  from inv have "distinct ord"
    and "\<And>e. e \<in> set ?es \<Longrightarrow> targetNodeId e \<in> set ord \<Longrightarrow>
           precedes (sourceNodeId e) (targetNodeId e) ord"
    unfolding kahn_inv_def by auto
  with s m tp show ?thesis by auto
qed

text \<open>
  A chain of three nodes whose keys are stored in the reverse order of the chain.
\<close>

theorem schedule_topological_witness:
  "wf_record ex_nodes3 \<and> endpoints_present ex_nodes3 ex_edges3 \<and> acyclic (edge_rel ex_edges3)
   \<and> schedule ex_nodes3 ex_edges3 = Inr [''n0'', ''n1'', ''n2'']
   \<and> (\<exists>order. schedule ex_nodes3 ex_edges3 = Inr order \<and> distinct order
     \<and> set order = set (Object_keys ex_nodes3)
     \<and> (\<forall>e \<in> set (Object_values ex_edges3).
            precedes (sourceNodeId e) (targetNodeId e) order))"
proof -
  have h1: "wf_record ex_nodes3" by (simp add: wf_record_def ex_nodes3_def)
  have h2: "endpoints_present ex_nodes3 ex_edges3"
    by (simp add: endpoints_present_def ex_nodes3_def ex_edges3_def mkEdge_def
          Object_keys_def Object_values_def enum_defs)
  have h3: "acyclic (edge_rel ex_edges3)"
    by (simp add: edge_rel_def edge_pairs_def ex_edges3_def mkEdge_def Object_values_def enum_defs
         rtrancl_insert acyclic_empty)
  have h4: "schedule ex_nodes3 ex_edges3 = Inr [''n0'', ''n1'', ''n2'']"
    by (simp add: schedule_def ex_nodes3_def ex_edges3_def mkEdge_def Object_keys_def enum_defs
      Object_values_def enum_defs init_record_def addEdge_def successors_def visit_def Let_def)
  from schedule_topological[OF h1 h2 h3] h1 h2 h3 h4 show ?thesis by blast
qed

text \<open>
  Claim C4, amended: for every graph whose edges all connect present nodes, cyclic or
  not, no exception is raised; the execution order contains exactly the nodes that are
  neither on a cycle nor reachable from a node on a cycle, each once; in particular no
  node on a cycle occurs in it; and every edge into a node of the order has its source
  earlier in the order.
\<close>

theorem schedule_cyclic:
  assumes "wf_record nodes" and "endpoints_present nodes edges"
  shows "\<exists>order. schedule nodes edges = Inr order \<and> distinct order
     \<and> (\<forall>v. v \<in> set order \<longleftrightarrow> v \<in> set (Object_keys nodes) \<and> \<not> after_cycle edges v)
     \<and> (\<forall>v. (v, v) \<in> (edge_rel edges)\<^sup>+ \<longrightarrow> v \<notin> set order)
     \<and> (\<forall>e \<in> set (Object_values edges). targetNodeId e \<in> set order \<longrightarrow>
            precedes (sourceNodeId e) (targetNodeId e) order)"
proof -
  let ?ns = "Object_keys nodes" and ?es = "Object_values edges"
  from assms(1) have d: "distinct ?ns" by (simp add: wf_record_def distinct_Object_keys)
  from assms(2) have sp: "sources_present ?ns ?es"
    by (auto simp: endpoints_present_def sources_present_def list_all_iff)
  from schedule_inv[OF d refl refl sp] obtain ord d' where
    s: "schedule nodes edges = Inr ord" and inv: "kahn_inv ?ns ?es [] ord d'" by blast
  have m: "v \<in> set ord \<longleftrightarrow> v \<in> set ?ns \<and> \<not> after_cycle edges v" for v
    using schedule_members[OF inv sp, of v] by (simp add: after_cycle_def edge_rel_def)
  from inv have "distinct ord"
    and "\<And>e. e \<in> set ?es \<Longrightarrow> targetNodeId e \<in> set ord \<Longrightarrow>
           precedes (sourceNodeId e) (targetNodeId e) ord"
    and "\<And>v. v \<in> set ord \<Longrightarrow> (v, v) \<notin> (edge_rel edges)\<^sup>+"
    unfolding kahn_inv_def edge_rel_def by auto
  with s m show ?thesis by blast
qed

text \<open>
  Claim C4, as stated, at the graph \<open>a \<rightarrow> b \<rightarrow> a\<close>, \<open>b \<rightarrow> c\<close>: node \<open>c\<close> is not on the
  cycle, yet the execution order is empty, so \<open>c\<close> does not appear in it: its in-degree
  never reaches zero, because its only predecessor is on the cycle.
\<close>

theorem schedule_cycle_counterexample:
  "schedule ex_nodes_cyc ex_edges_cyc = Inr []
   \<and> ''c'' \<in> set (Object_keys ex_nodes_cyc)
   \<and> (''c'', ''c'') \<notin> (edge_rel ex_edges_cyc)\<^sup>+
   \<and> (''a'', ''a'') \<in> (edge_rel ex_edges_cyc)\<^sup>+"
proof -
  have s: "schedule ex_nodes_cyc ex_edges_cyc = Inr []"
    by (simp add: schedule_def ex_nodes_cyc_def ex_edges_cyc_def mkEdge_def Object_keys_def enum_defs
      Object_values_def enum_defs init_record_def addEdge_def successors_def visit_def Let_def)
  have k: "''c'' \<in> set (Object_keys ex_nodes_cyc)"
    by (simp add: ex_nodes_cyc_def Object_keys_def enum_defs)
  have E: "edge_rel ex_edges_cyc = {(''a'', ''b''), (''b'', ''a''), (''b'', ''c'')}"
    by (simp add: edge_rel_def edge_pairs_def ex_edges_cyc_def mkEdge_def Object_values_def enum_defs)
  have c: "(''c'', ''c'') \<notin> (edge_rel ex_edges_cyc)\<^sup>+"
  proof
    assume "(''c'', ''c'') \<in> (edge_rel ex_edges_cyc)\<^sup>+"
    then obtain z where "(''c'', z) \<in> edge_rel ex_edges_cyc" by (auto dest: tranclD)
    then show False by (simp add: E)
  qed
  have "(''a'', ''b'') \<in> edge_rel ex_edges_cyc" "(''b'', ''a'') \<in> edge_rel ex_edges_cyc"
    by (simp_all add: E)
  then have a: "(''a'', ''a'') \<in> (edge_rel ex_edges_cyc)\<^sup>+" by (rule trancl_into_trancl2[OF _ r_into_trancl])
  from s k c a show ?thesis by blast
qed

text \<open>
  The same graph with an independent chain \<open>d \<rightarrow> e\<close> beside it.
\<close>

theorem schedule_cyclic_witness:
  "wf_record ex_nodes_cyc2 \<and> endpoints_present ex_nodes_cyc2 ex_edges_cyc2
   \<and> schedule ex_nodes_cyc2 ex_edges_cyc2 = Inr [''d'', ''e'']
   \<and> (\<exists>order. schedule ex_nodes_cyc2 ex_edges_cyc2 = Inr order \<and> distinct order
     \<and> (\<forall>v. v \<in> set order \<longleftrightarrow> v \<in> set (Object_keys ex_nodes_cyc2) \<and> \<not> after_cycle ex_edges_cyc2 v)
     \<and> (\<forall>v. (v, v) \<in> (edge_rel ex_edges_cyc2)\<^sup>+ \<longrightarrow> v \<notin> set order)
     \<and> (\<forall>e \<in> set (Object_values ex_edges_cyc2). targetNodeId e \<in> set order \<longrightarrow>
            precedes (sourceNodeId e) (targetNodeId e) order))"
proof -
  have h1: "wf_record ex_nodes_cyc2"
    by (simp add: wf_record_def ex_nodes_cyc2_def ex_nodes_cyc_def)
  have h2: "endpoints_present ex_nodes_cyc2 ex_edges_cyc2"
    by (simp add: endpoints_present_def ex_nodes_cyc2_def ex_nodes_cyc_def ex_edges_cyc2_def
          ex_edges_cyc_def mkEdge_def Object_keys_def Object_values_def enum_defs)
  have h4: "schedule ex_nodes_cyc2 ex_edges_cyc2 = Inr [''d'', ''e'']"
    by (simp add: schedule_def ex_nodes_cyc2_def ex_nodes_cyc_def ex_edges_cyc2_def
          ex_edges_cyc_def mkEdge_def Object_keys_def enum_defs
      Object_values_def enum_defs init_record_def addEdge_def successors_def visit_def Let_def)
  from schedule_cyclic[OF h1 h2] h1 h2 h4 show ?thesis by blast
qed

text \<open>The scheduling phase completes exactly when every edge's source is a key of the
  node map; an absent target alone raises nothing (its in-degree entry becomes
  \<^verbatim>\<open>NaN\<close>).\<close>

lemma schedule_completes_iff:
  "(\<exists>order. schedule nodes edges = Inr order)
     \<longleftrightarrow> sources_present (Object_keys nodes) (Object_values edges)"
proof
  let ?ns = "Object_keys nodes" and ?es = "Object_values edges"
  let ?adj0 = "init_record ([]::string list) ?ns" and ?deg0 = "init_record (Num 0) ?ns"
  {
    assume "sources_present ?ns ?es"
    then have "\<forall>e \<in> set ?es. map_of ?adj0 (sourceNodeId e) \<noteq> None"
      by (simp add: sources_present_def list_all_iff map_of_init_record)
    from addEdges_ok[OF this, of ?deg0] obtain adj deg where
      "addEdges ?es (?adj0, ?deg0) = Inr (adj, deg)" by blast
    then show "\<exists>order. schedule nodes edges = Inr order"
      by (simp add: schedule_def Let_def)
  }
  {
    assume a: "\<exists>order. schedule nodes edges = Inr order"
    show "sources_present ?ns ?es"
    proof (rule ccontr)
      assume "\<not> sources_present ?ns ?es"
      then have "\<exists>e \<in> set ?es. map_of ?adj0 (sourceNodeId e) = None"
        by (auto simp: sources_present_def list_all_iff map_of_init_record)
      from addEdges_fail[OF this, of ?deg0] a show False
        by (auto simp: schedule_def Let_def)
    qed
  }
qed

text \<open>
  Claim C10: when every edge's source and target are keys of the node map, the
  scheduling phase returns an order (the loop is a total function, so it always
  terminates); when some edge's source is not a key of the node map, building the
  adjacency lists throws a TypeError, no order is computed, and the run ends with that
  exception in the state the reset left, before any node has run.
\<close>

theorem schedule_total:
  "(endpoints_present nodes edges \<longrightarrow> (\<exists>order. schedule nodes edges = Inr order))
   \<and> ((\<exists>e \<in> set (Object_values edges). sourceNodeId e \<notin> set (Object_keys nodes))
        \<longrightarrow> (\<exists>m. schedule nodes edges = Inl (TypeError m)
                 \<and> runWorkflow env nodes edges h w
                     = Some (Crash (TypeError m), initial_state nodes h w)))"
proof (intro conjI impI)
  let ?ns = "Object_keys nodes" and ?es = "Object_values edges"
  let ?adj0 = "init_record ([]::string list) ?ns" and ?deg0 = "init_record (Num 0) ?ns"
  {
    assume "endpoints_present nodes edges"
    then have "\<forall>e \<in> set ?es. map_of ?adj0 (sourceNodeId e) \<noteq> None"
      by (simp add: endpoints_present_def list_all_iff map_of_init_record)
    from addEdges_ok[OF this, of ?deg0] obtain adj deg where
      "addEdges ?es (?adj0, ?deg0) = Inr (adj, deg)" by blast
    then show "\<exists>order. schedule nodes edges = Inr order"
      by (simp add: schedule_def Let_def)
  }
  {
    assume "\<exists>e \<in> set ?es. sourceNodeId e \<notin> set ?ns"
    then have "\<exists>e \<in> set ?es. map_of ?adj0 (sourceNodeId e) = None"
      by (simp add: map_of_init_record)
    from addEdges_fail[OF this, of ?deg0] obtain m where
      "addEdges ?es (?adj0, ?deg0) = Inl (TypeError m)" by blast
    then have "schedule nodes edges = Inl (TypeError m)"
      by (simp add: schedule_def Let_def)
    then show "\<exists>m. schedule nodes edges = Inl (TypeError m)
                 \<and> runWorkflow env nodes edges h w
                     = Some (Crash (TypeError m), initial_state nodes h w)"
      by (simp add: runWorkflow_def)
  }
qed

text \<open>
  The chain of three nodes, and the same nodes with an edge whose source was deleted.
\<close>

theorem schedule_total_witness:
  "endpoints_present ex_nodes3 ex_edges3
   \<and> (\<exists>order. schedule ex_nodes3 ex_edges3 = Inr order)
   \<and> (\<exists>e \<in> set (Object_values ex_edges_dangling). sourceNodeId e \<notin> set (Object_keys ex_nodes3))
   \<and> (\<exists>m. schedule ex_nodes3 ex_edges_dangling = Inl (TypeError m)
          \<and> runWorkflow ex_env ex_nodes3 ex_edges_dangling [] world0
               = Some (Crash (TypeError m), initial_state ex_nodes3 [] world0))"
proof -
  have h2: "endpoints_present ex_nodes3 ex_edges3"
    by (simp add: endpoints_present_def ex_nodes3_def ex_edges3_def mkEdge_def
          Object_keys_def Object_values_def enum_defs)
  have h3: "\<exists>e \<in> set (Object_values ex_edges_dangling). sourceNodeId e \<notin> set (Object_keys ex_nodes3)"
    by (simp add: ex_nodes3_def ex_edges_dangling_def mkEdge_def Object_keys_def Object_values_def enum_defs)
  from schedule_total[of ex_nodes3 ex_edges3]
    schedule_total[of ex_nodes3 ex_edges_dangling ex_env "[]" world0] h2 h3
  show ?thesis by blast
qed

subsection \<open>The retry wrapper\<close>

lemmas withRetry_unfold =
  withRetry_from.simps[of _ _ 0] withRetry_from.simps[of _ _ "Suc 0"]
  withRetry_from.simps[of _ _ "Suc (Suc 0)"]

text \<open>
  Claim C5: let the wrapped call be the SDK call \<open>c\<close>, whose outcome at the k-th call
  of the session is \<open>f k\<close>. If it fails twice with a rate-limit error and then
  succeeds, \<^verbatim>\<open>withRetry\<close> returns the success value, the call was made exactly three
  times, and the two waits were \<^verbatim>\<open>INITIAL_DELAY_MS * 2^i\<close> plus a thousand times the
  random number drawn, for \<open>i = 0, 1\<close>. If its first failure is not a rate-limit error,
  the call was made exactly once, nothing was waited for, and that error is thrown. If
  it fails three times with rate-limit errors, the third error is thrown after three
  calls and two waits.
\<close>

theorem withRetry_policy:
  fixes w :: "'w world_scheme" and f :: "nat \<Rightarrow> js_error + 'a"
  shows "(f (length (api_log w)) = Inl ea \<and> isRateLimitError env ea
           \<and> f (length (api_log w) + 1) = Inl eb \<and> isRateLimitError env eb
           \<and> f (length (api_log w) + 2) = Inr v
          \<longrightarrow> withRetry env (invoke c f) w =
               (Inr v, w\<lparr>api_log := api_log w @ [c, c, c], random_draws := random_draws w + 2,
                         delays := delays w @
                           [INITIAL_DELAY_MS * 2 ^ 0 + Math_random env (random_draws w) * 1000,
                            INITIAL_DELAY_MS * 2 ^ 1 + Math_random env (random_draws w + 1) * 1000]\<rparr>))
     \<and> (f (length (api_log w)) = Inl ea \<and> \<not> isRateLimitError env ea
          \<longrightarrow> withRetry env (invoke c f) w = (Inl ea, w\<lparr>api_log := api_log w @ [c]\<rparr>))
     \<and> (f (length (api_log w)) = Inl ea \<and> isRateLimitError env ea
           \<and> f (length (api_log w) + 1) = Inl eb \<and> isRateLimitError env eb
           \<and> f (length (api_log w) + 2) = Inl ec \<and> isRateLimitError env ec
          \<longrightarrow> withRetry env (invoke c f) w =
               (Inl ec, w\<lparr>api_log := api_log w @ [c, c, c], random_draws := random_draws w + 2,
                          delays := delays w @
                           [INITIAL_DELAY_MS * 2 ^ 0 + Math_random env (random_draws w) * 1000,
                            INITIAL_DELAY_MS * 2 ^ 1 + Math_random env (random_draws w + 1) * 1000]\<rparr>))"
  by (simp add: withRetry_def withRetry_unfold MAX_RETRIES_def invoke_def random_next_def
        delay_def Let_def)

text \<open>Two textual rate-limit failures followed by a success; a failure that is not a
  rate-limit error; and three rate-limit failures. The random number is one half, so
  the waits are 2500 and 4500 milliseconds.\<close>

theorem withRetry_policy_witness:
  "withRetry ex_env
     (invoke (GenerateImages (Str ''a cat''))
        (\<lambda>k. if k < 2 then Inl (Error ''429 Too Many Requests'') else Inr (Str ''ok''))) world0
     = (Inr (Str ''ok''),
        \<lparr>api_log = [GenerateImages (Str ''a cat''), GenerateImages (Str ''a cat''),
                    GenerateImages (Str ''a cat'')],
         random_draws = 2, uuid_draws = 0, delays = [2500, 4500]\<rparr>)
   \<and> withRetry ex_env
       (invoke (GenerateImages (Str ''a cat'')) (\<lambda>k. Inl (Error ''boom'') :: js_error + val)) world0
     = (Inl (Error ''boom''),
        \<lparr>api_log = [GenerateImages (Str ''a cat'')], random_draws = 0, uuid_draws = 0,
         delays = []\<rparr>)
   \<and> withRetry ex_env
       (invoke (GenerateImages (Str ''a cat''))
          (\<lambda>k. Inl (Error (if k = 2 then ''Rate Limit, last'' else ''Rate Limit'')) :: js_error + val)) world0
     = (Inl (Error ''Rate Limit, last''),
        \<lparr>api_log = [GenerateImages (Str ''a cat''), GenerateImages (Str ''a cat''),
                    GenerateImages (Str ''a cat'')],
         random_draws = 2, uuid_draws = 0, delays = [2500, 4500]\<rparr>)"
proof -
  have r1: "isRateLimitError ex_env (Error ''429 Too Many Requests'')"
    by (simp add: isRateLimitError_def ex_env_def)
  have r2: "\<not> isRateLimitError ex_env (Error ''boom'')"
    by (simp add: isRateLimitError_def ex_env_def toLowerCase_def lower_char_def)
  have r3: "isRateLimitError ex_env (Error ''Rate Limit'')"
    "isRateLimitError ex_env (Error ''Rate Limit, last'')"
    by (simp_all add: isRateLimitError_def ex_env_def toLowerCase_def lower_char_def)
  note a = withRetry_policy[where w = world0 and env = ex_env
      and c = "GenerateImages (Str ''a cat'')"
      and f = "\<lambda>k. if k < 2 then Inl (Error ''429 Too Many Requests'') else Inr (Str ''ok'')"
      and ea = "Error ''429 Too Many Requests''" and eb = "Error ''429 Too Many Requests''"
      and v = "Str ''ok''"]
  note b = withRetry_policy[where w = world0 and env = ex_env
      and c = "GenerateImages (Str ''a cat'')"
      and f = "\<lambda>k. Inl (Error ''boom'') :: js_error + val" and ea = "Error ''boom''"]
  note c = withRetry_policy[where w = world0 and env = ex_env
      and c = "GenerateImages (Str ''a cat'')"
      and f = "\<lambda>k. Inl (Error (if k = 2 then ''Rate Limit, last'' else ''Rate Limit'')) :: js_error + val"
      and ea = "Error ''Rate Limit''" and eb = "Error ''Rate Limit''"
      and ec = "Error ''Rate Limit, last''"]
  have A: "withRetry ex_env
     (invoke (GenerateImages (Str ''a cat''))
        (\<lambda>k. if k < 2 then Inl (Error ''429 Too Many Requests'') else Inr (Str ''ok''))) world0
     = (Inr (Str ''ok''),
        \<lparr>api_log = [GenerateImages (Str ''a cat''), GenerateImages (Str ''a cat''),
                    GenerateImages (Str ''a cat'')],
         random_draws = 2, uuid_draws = 0, delays = [2500, 4500]\<rparr>)"
    using a r1 by (simp add: world0_def ex_env_def INITIAL_DELAY_MS_def)
  have B: "withRetry ex_env
       (invoke (GenerateImages (Str ''a cat'')) (\<lambda>k. Inl (Error ''boom'') :: js_error + val)) world0
     = (Inl (Error ''boom''),
        \<lparr>api_log = [GenerateImages (Str ''a cat'')], random_draws = 0, uuid_draws = 0,
         delays = []\<rparr>)"
    using b r2 by (simp add: world0_def)
  have C: "withRetry ex_env
       (invoke (GenerateImages (Str ''a cat''))
          (\<lambda>k. Inl (Error (if k = 2 then ''Rate Limit, last'' else ''Rate Limit'')) :: js_error + val)) world0
     = (Inl (Error ''Rate Limit, last''),
        \<lparr>api_log = [GenerateImages (Str ''a cat''), GenerateImages (Str ''a cat''),
                    GenerateImages (Str ''a cat'')],
         random_draws = 2, uuid_draws = 0, delays = [2500, 4500]\<rparr>)"
    using c r3 by (simp add: world0_def ex_env_def INITIAL_DELAY_MS_def)
  from A B C show ?thesis by blast
qed

subsection \<open>The execution engine\<close>

lemmas ex_defs = created_def createNode_def baseData_def mkPort_def mkEdge_def with_content_def
  muted_def Object_keys_def Object_values_def own_entries_def is_array_index_def is_digit_def
  int_of_digits_def digit_val_def

lemmas run_defs = runNode_def dispatch_def updateNodeData_def initial_state_def resetNodes_def
  resetNode_def routeOutputs_def gatherInputs_def lookup_def world0_def runMuted_def

lemmas sched_defs = schedule_def init_record_def addEdge_def successors_def visit_def Let_def

lemma map_of_fold_update_const:
  "map_of (fold (\<lambda>p acc. AList.update (port_id p) v acc) ps acc0) k
     = (if k \<in> port_id ` set ps then Some v else map_of acc0 k)"
  by (induction ps arbitrary: acc0) (auto simp: update_conv')

text \<open>The value \<^verbatim>\<open>inputs\<close> holds for a handle: the output at the source of the last edge
  into the handle, \<^verbatim>\<open>undefined\<close> when there is none.\<close>

lemma map_of_fold_update_last:
  "map_of (fold (\<lambda>edge acc. AList.update (targetHandleId edge) (v edge) acc) es acc0) h
     = (case filter (\<lambda>e. targetHandleId e = h) es of
          [] \<Rightarrow> map_of acc0 h
        | f # fs \<Rightarrow> Some (v (last (f # fs))))"
proof (induction es arbitrary: acc0)
  case Nil
  show ?case by simp
next
  case (Cons e es)
  show ?case
    by (cases "filter (\<lambda>e. targetHandleId e = h) es")
       (auto simp: Cons.IH update_conv')
qed

lemma gatherInputs_lookup:
  "lookup (gatherInputs edges outs nodeId) h
     = (case filter (\<lambda>e. targetNodeId e = nodeId \<and> targetHandleId e = h) (Object_values edges) of
          [] \<Rightarrow> Undefined
        | f # fs \<Rightarrow> lookup outs (sourceHandleId (last (f # fs))))"
  by (simp add: gatherInputs_def lookup_def map_of_fold_update_last split: list.splits)

text \<open>
  Claim C6: a muted node of any kind, when its turn comes, makes no SDK call and waits
  for nothing, leaves the history alone, gets status \<^verbatim>\<open>COMPLETED\<close> (nothing else of the
  node changes), and every one of its output handles receives the value that
  \<^verbatim>\<open>inputs\<close> holds for its first input handle. A node without input handles has no
  first input, and then no output is written.
\<close>

theorem muted_passthrough:
  assumes "map_of nodes nodeId = Some node" and "isMuted (data node)"
    and "map_of (store s) nodeId = Some n"
  shows "\<exists>s'. runNode env nodes edges nodeId s = Some (Continue, s')
     \<and> api_log s' = api_log s \<and> delays s' = delays s \<and> history s' = history s
     \<and> map_of (store s') nodeId = Some (n\<lparr>data := (data n)\<lparr>status := COMPLETED\<rparr>\<rparr>)
     \<and> (\<forall>firstInputHandle rest. inputs (data node) = firstInputHandle # rest \<longrightarrow>
          (\<forall>out \<in> set (outputs (data node)).
             lookup (nodeOutputs s') (port_id out)
               = lookup (gatherInputs edges (nodeOutputs s) nodeId) (port_id firstInputHandle)))
     \<and> (inputs (data node) = [] \<longrightarrow> nodeOutputs s' = nodeOutputs s)"
proof -
  let ?s1 = "updateNodeData nodeId (\<lambda>d. d\<lparr>status := COMPLETED\<rparr>) s"
  let ?ins = "gatherInputs edges (nodeOutputs s) nodeId"
  have r: "runNode env nodes edges nodeId s = Some (Continue, runMuted node nodeId ?ins s)"
    using assms(1,2) by (simp add: runNode_def)
  have s1: "?s1 = s\<lparr>store := AList.update nodeId (n\<lparr>data := (data n)\<lparr>status := COMPLETED\<rparr>\<rparr>) (store s)\<rparr>"
    using assms(3) by (simp add: updateNodeData_def)
  show ?thesis
  proof (cases "inputs (data node)")
    case Nil
    then have "runMuted node nodeId ?ins s = ?s1" by (simp add: runMuted_def)
    with r s1 Nil show ?thesis by (simp add: update_conv')
  next
    case (Cons f rest)
    then have m: "runMuted node nodeId ?ins s =
        ?s1\<lparr>nodeOutputs := fold (\<lambda>outputHandle outs.
                          AList.update (port_id outputHandle) (lookup ?ins (port_id f)) outs)
                    (outputs (data node)) (nodeOutputs ?s1)\<rparr>"
      by (simp add: runMuted_def Let_def)
    show ?thesis
      using r Cons unfolding m s1
      by (auto simp: update_conv' lookup_def map_of_fold_update_const)
  qed
qed

text \<open>A muted text generator fed by a text input: the prompt passes through, and
  nothing is called. A muted text input: it has no input handle, and its output handle
  is left unwritten.\<close>

theorem muted_passthrough_witness:
  "(\<exists>s'. runNode ex_env ex_nodes_muted ex_edges3 ''n1''
          (ex_state ex_nodes_muted [(''n0-output'', Str ''a cat'')]) = Some (Continue, s')
     \<and> api_log s' = [] \<and> history s' = []
     \<and> map_option (\<lambda>n. status (data n)) (map_of (store s') ''n1'') = Some COMPLETED
     \<and> lookup (nodeOutputs s') ''n1-output'' = Str ''a cat'')
   \<and> (\<exists>s'. runNode ex_env ex_nodes_muted_input [] ''n0'' (ex_state ex_nodes_muted_input [])
          = Some (Continue, s')
     \<and> map_option (\<lambda>n. status (data n)) (map_of (store s') ''n0'') = Some COMPLETED
     \<and> nodeOutputs s' = [])"
proof -
  let ?s = "ex_state ex_nodes_muted [(''n0-output'', Str ''a cat'')]"
  let ?node = "muted (created ''n1'' TEXT_GENERATOR)"
  have h1: "map_of ex_nodes_muted ''n1'' = Some ?node" by (simp add: ex_nodes_muted_def)
  have h2: "isMuted (data ?node)" by (simp add: ex_defs)
  have h3: "map_of (store ?s) ''n1'' = Some (resetNode ?node)"
    by (simp add: ex_state_def initial_state_def resetNodes_def ex_nodes_muted_def)
  have i: "inputs (data ?node) = [mkPort ''n1-input'' ''Prompt'' T_text]"
    and o: "mkPort ''n1-output'' ''Text'' T_text \<in> set (outputs (data ?node))"
    by (simp_all add: ex_defs)
  have g: "lookup (gatherInputs ex_edges3 (nodeOutputs ?s) ''n1'') ''n1-input'' = Str ''a cat''"
    by (simp add: gatherInputs_def ex_edges3_def ex_state_def lookup_def ex_defs)
  have w: "api_log ?s = []" "history ?s = []"
    by (simp_all add: ex_state_def initial_state_def world0_def)
  from muted_passthrough[OF h1 h2 h3, of ex_env ex_edges3] obtain s' where
    a: "runNode ex_env ex_nodes_muted ex_edges3 ''n1'' ?s = Some (Continue, s')"
    and b: "api_log s' = api_log ?s" "history s' = history ?s"
    and c: "map_of (store s') ''n1'' = Some ((resetNode ?node)\<lparr>data := (data (resetNode ?node))\<lparr>status := COMPLETED\<rparr>\<rparr>)"
    and d: "\<And>f rest out. inputs (data ?node) = f # rest \<Longrightarrow> out \<in> set (outputs (data ?node)) \<Longrightarrow>
             lookup (nodeOutputs s') (port_id out)
               = lookup (gatherInputs ex_edges3 (nodeOutputs ?s) ''n1'') (port_id f)"
    by blast
  from d[OF i o] g have "lookup (nodeOutputs s') ''n1-output'' = Str ''a cat''"
    by (simp add: mkPort_def)
  with a b c w have A: "\<exists>s'. runNode ex_env ex_nodes_muted ex_edges3 ''n1'' ?s = Some (Continue, s')
     \<and> api_log s' = [] \<and> history s' = []
     \<and> map_option (\<lambda>n. status (data n)) (map_of (store s') ''n1'') = Some COMPLETED
     \<and> lookup (nodeOutputs s') ''n1-output'' = Str ''a cat''" by auto
  let ?t = "ex_state ex_nodes_muted_input []"
  let ?inp = "muted (with_content (Str ''a cat'') (created ''n0'' TEXT_INPUT))"
  have k1: "map_of ex_nodes_muted_input ''n0'' = Some ?inp" by (simp add: ex_nodes_muted_input_def)
  have k2: "isMuted (data ?inp)" by (simp add: ex_defs)
  have k3: "map_of (store ?t) ''n0'' = Some (resetNode ?inp)"
    by (simp add: ex_state_def initial_state_def resetNodes_def ex_nodes_muted_input_def)
  have k4: "inputs (data ?inp) = []" by (simp add: ex_defs)
  have k5: "nodeOutputs ?t = []" by (simp add: ex_state_def)
  from muted_passthrough[OF k1 k2 k3, of ex_env "[]"] k4 k5
  have B: "\<exists>s'. runNode ex_env ex_nodes_muted_input [] ''n0'' ?t = Some (Continue, s')
     \<and> map_option (\<lambda>n. status (data n)) (map_of (store s') ''n0'') = Some COMPLETED
     \<and> nodeOutputs s' = []" by auto
  from A B show ?thesis by blast
qed

lemma frame_refl: "frame s s"
  by (simp add: frame_def)

lemma frame_trans: "frame s s' \<Longrightarrow> frame s' s'' \<Longrightarrow> frame s s''"
  by (simp add: frame_def)

lemma frame_invoke: "frame s (snd (invoke c f s))"
  by (simp add: frame_def invoke_def)

lemma frame_delay: "frame s (delay ms s)"
  by (simp add: frame_def delay_def)

lemma frame_random: "frame s (snd (random_next env s))"
  by (simp add: frame_def random_next_def)

lemma frame_withRetry_from:
  assumes "\<And>s. frame s (snd (apiCall s))"
  shows "frame s (snd (withRetry_from env apiCall i e s))"
  using assms
proof (induction env apiCall i e s rule: withRetry_from.induct)
  case (1 env apiCall i lastError w)
  note call = "1.prems"
  show ?case
  proof (cases "i < MAX_RETRIES")
    case False
    then show ?thesis by (simp add: withRetry_from.simps frame_refl)
  next
    case True
    obtain res w1 where c: "apiCall w = (res, w1)" by (cases "apiCall w")
    from call[of w] c have f1: "frame w w1" by simp
    show ?thesis
    proof (cases res)
      case (Inr v)
      with True c f1 show ?thesis by (simp add: withRetry_from.simps)
    next
      case (Inl error)
      show ?thesis
      proof (cases "isRateLimitError env error \<and> i < MAX_RETRIES - 1")
        case False
        with True c f1 Inl show ?thesis by (auto simp: withRetry_from.simps)
      next
        case rl: True
        obtain r w2 where rn: "random_next env w1 = (r, w2)" by (cases "random_next env w1")
        from frame_random[of w1 env] rn have f2: "frame w1 w2" by simp
        let ?w3 = "delay (INITIAL_DELAY_MS * 2 ^ i + r * 1000) w2"
        have f3: "frame w2 ?w3" by (rule frame_delay)
        have ih: "frame ?w3 (snd (withRetry_from env apiCall (i + 1) error ?w3))"
          using "1.IH"[OF True c[symmetric] Inl conjunct1[OF rl] conjunct2[OF rl] refl refl
                  rn[symmetric] refl refl call] by simp
        have eq: "withRetry_from env apiCall i lastError w
                    = withRetry_from env apiCall (i + 1) error ?w3"
          using True c Inl rl rn by (simp add: withRetry_from.simps[of env apiCall i] Let_def)
        from frame_trans[OF frame_trans[OF frame_trans[OF f1 f2] f3] ih] eq
        show ?thesis by simp
      qed
    qed
  qed
qed

lemma frame_withRetry:
  "frame s (snd (withRetry env (invoke c f) s))"
  unfolding withRetry_def by (rule frame_withRetry_from) (rule frame_invoke)

lemma same_others_refl: "same_others n s s"
  by (simp add: same_others_def)

lemma same_others_trans: "same_others n s s' \<Longrightarrow> same_others n s' s'' \<Longrightarrow> same_others n s s''"
  by (simp add: same_others_def)

lemma frame_same_others: "frame s s' \<Longrightarrow> same_others n s s'"
  by (simp add: frame_def same_others_def)

lemma same_others_update: "same_others n s (updateNodeData n upd s)"
  by (auto simp: same_others_def updateNodeData_def update_conv' split: option.splits)

lemma same_others_addHistory: "same_others n s (addHistory env url p s)"
  by (simp add: same_others_def addHistory_def uuid_next_def)

lemma frame_generateText: "frame s (snd (generateText env p s))"
  using frame_withRetry[of s env "GenerateContent (TextRequest ''gemini-2.5-flash'' p)"
      "\<lambda>k. generateContent env k (TextRequest ''gemini-2.5-flash'' p)"]
  by (auto simp: generateText_def generateContentWithRetry_def frame_refl split: prod.splits sum.splits)

lemma frame_generateImage: "frame s (snd (generateImage env p s))"
  using frame_withRetry[of s env "GenerateImages p" "\<lambda>k. generateImages env k p"]
  by (auto simp: generateImage_def generateImagesWithRetry_def frame_refl
      split: prod.splits sum.splits list.splits option.splits)

lemma frame_editImage: "frame s (snd (editImage env d m p s))"
  using frame_withRetry[of s env
      "GenerateContent (PartsRequest ''gemini-2.5-flash-image-preview'' [(d, m)] p)"
      "\<lambda>k. generateContent env k (PartsRequest ''gemini-2.5-flash-image-preview'' [(d, m)] p)"]
  by (auto simp: editImage_def generateContentWithRetry_def frame_refl split: prod.splits sum.splits)

lemma frame_executePreset: "frame s (snd (executePreset env ins p s))"
  using frame_withRetry[of s env
      "GenerateContent (PartsRequest ''gemini-2.5-flash-image-preview'' ins p)"
      "\<lambda>k. generateContent env k (PartsRequest ''gemini-2.5-flash-image-preview'' ins p)"]
  by (auto simp: executePreset_def generateContentWithRetry_def frame_refl split: prod.splits sum.splits)

lemma same_others_poll_aux:
  "pollOperation env onProgress operation s = Some y \<Longrightarrow>
     onProgress = (\<lambda>progress. updateNodeData n (upd progress)) \<longrightarrow> same_others n s (snd y)"
proof (rule pollOperation.raw_induct[where P = "\<lambda>env onProgress operation (s::run_state) y.
          onProgress = (\<lambda>progress. updateNodeData n (upd progress)) \<longrightarrow> same_others n s (snd y)"
          and env = env and onProgress = onProgress and operation = operation and w = s and y = y])
  fix poll :: "env \<Rightarrow> (string \<Rightarrow> run_state \<Rightarrow> run_state) \<Rightarrow> operation \<Rightarrow> run_state
               \<Rightarrow> ((js_error + operation) \<times> run_state) option"
  fix env onProgress operation and w :: run_state and y
  assume IH: "\<And>env onProgress operation w y. poll env onProgress operation w = Some y \<Longrightarrow>
        onProgress = (\<lambda>progress. updateNodeData n (upd progress)) \<longrightarrow> same_others n w (snd y)"
  assume eq: "(if op_done operation then Some (Inr operation, w)
      else case getVideosOperationWithRetry env operation
                 (onProgress ''Checking video status...'' (delay 10000 w)) of
           (Inl error, w') \<Rightarrow> Some (Inl error, w')
           | (Inr operation', w') \<Rightarrow> poll env onProgress operation' w') = Some y"
  show "onProgress = (\<lambda>progress. updateNodeData n (upd progress)) \<longrightarrow> same_others n w (snd y)"
  proof
    assume op: "onProgress = (\<lambda>progress. updateNodeData n (upd progress))"
    show "same_others n w (snd y)"
    proof (cases "op_done operation")
      case True
      with eq show ?thesis by (auto simp: same_others_refl)
    next
      case False
      let ?w1 = "onProgress ''Checking video status...'' (delay 10000 w)"
      have a: "same_others n w ?w1"
        using frame_same_others[OF frame_delay[of w 10000], of n]
          same_others_update[of n "delay 10000 w" "upd ''Checking video status...''"]
        unfolding op by (rule same_others_trans)
      obtain res w2 where g: "getVideosOperationWithRetry env operation ?w1 = (res, w2)"
        by (cases "getVideosOperationWithRetry env operation ?w1")
      have "frame ?w1 w2"
        using frame_withRetry[of ?w1 env "GetVideosOperation operation"
            "\<lambda>k. getVideosOperation env k operation"] g
        by (simp add: getVideosOperationWithRetry_def)
      then have b: "same_others n ?w1 w2" by (rule frame_same_others)
      show ?thesis
      proof (cases res)
        case (Inl e)
        from eq False have "y = (Inl e, w2)" by (simp add: g Inl)
        with same_others_trans[OF a b] show ?thesis by simp
      next
        case (Inr op')
        from eq False have "poll env onProgress op' w2 = Some y" by (simp add: g Inr)
        from IH[OF this] op have "same_others n w2 (snd y)" by simp
        with same_others_trans[OF a b] show ?thesis by (rule same_others_trans)
      qed
    qed
  qed
qed

lemma same_others_poll:
  assumes "pollOperation env onProgress operation s = Some y"
    and "onProgress = (\<lambda>progress. updateNodeData n (upd progress))"
  shows "same_others n s (snd y)"
  using same_others_poll_aux[OF assms(1)] assms(2) by simp

lemma same_others_generateVideo_try:
  assumes "generateVideo_try env b m p onProgress s = Some y"
    and op: "onProgress = (\<lambda>progress. updateNodeData n (upd progress))"
  shows "same_others n s (snd y)"
proof -
  let ?w0 = "onProgress ''Starting video generation...'' s"
  let ?img = "imageArg b m"
  have up: "same_others n x (onProgress msg x)" for x msg
    unfolding op by (rule same_others_update)
  obtain res w1 where g: "generateVideosWithRetry env ?img p ?w0 = (res, w1)"
    by (cases "generateVideosWithRetry env ?img p ?w0")
  have "frame ?w0 w1"
    using frame_withRetry[of ?w0 env "GenerateVideos ?img p" "\<lambda>k. generateVideos env k ?img p"] g
    by (simp add: generateVideosWithRetry_def)
  then have b1: "same_others n ?w0 w1" by (rule frame_same_others)
  have s1: "same_others n s w1" using up b1 by (rule same_others_trans)
  show ?thesis
  proof (cases res)
    case (Inl e)
    from assms(1) have "y = (Inl e, w1)" by (simp add: generateVideo_try_def Let_def g Inl)
    with s1 show ?thesis by simp
  next
    case (Inr operation)
    let ?w1' = "onProgress ''Video processing has started. This may take a few minutes...'' w1"
    have s1': "same_others n s ?w1'" using s1 up by (rule same_others_trans)
    from assms(1) obtain z where z: "pollOperation env onProgress operation ?w1' = Some z"
      by (cases "pollOperation env onProgress operation ?w1'")
         (simp_all add: generateVideo_try_def Let_def g Inr)
    from same_others_poll[OF z op] s1' have s2: "same_others n s (snd z)"
      by (rule same_others_trans[rotated])
    obtain r2 w2 where zz: "z = (r2, w2)" by (cases z)
    from s2 zz have s2': "same_others n s w2" by simp
    let ?w3 = "onProgress ''Video processing complete. Fetching video...'' w2"
    have s3: "same_others n s ?w3" using s2' up by (rule same_others_trans)
    show ?thesis
    proof (cases r2)
      case (Inl e)
      from assms(1) have "y = (Inl e, w2)"
        by (simp add: generateVideo_try_def Let_def g Inr z zz Inl)
      with s2' show ?thesis by simp
    next
      case r2: (Inr op')
      show ?thesis
      proof (cases "if_truthy (op_uri op')")
        case None
        then have "op_uri op' = None \<or> op_uri op' = Some []"
          by (auto simp: if_truthy_def split: option.splits if_splits)
        with assms(1) have "snd y = ?w3"
          by (auto simp: generateVideo_try_def Let_def g Inr z zz r2)
        with s3 show ?thesis by simp
      next
        case (Some link)
        then have l: "op_uri op' = Some link" "link \<noteq> []"
          by (auto simp: if_truthy_def split: option.splits if_splits)
        obtain r4 w4 where i: "fetchVideo env link ?w3 = (r4, w4)"
          by (cases "fetchVideo env link ?w3")
        from frame_invoke[of ?w3 "Fetch (link @ ''&key='' @ API_KEY env)"
            "\<lambda>k. fetchObjectURL env (link @ ''&key='' @ API_KEY env)"] i
        have "same_others n ?w3 w4"
          by (auto simp: fetchVideo_def intro: frame_same_others)
        with s3 have s4: "same_others n s w4" by (rule same_others_trans)
        from assms(1) have
          "y = (case r4 of Inl error \<Rightarrow> (Inl error, w4)
                | Inr url \<Rightarrow> (Inr url, onProgress ''Video fetched successfully.'' w4))"
          by (simp add: generateVideo_try_def Let_def g Inr z zz r2 l i split: sum.splits)
        then have "snd y = w4 \<or> snd y = onProgress ''Video fetched successfully.'' w4"
          by (cases r4) simp_all
        with s4 up show ?thesis by (auto intro: same_others_trans)
      qed
    qed
  qed
qed

lemma same_others_generateVideo:
  assumes "generateVideo env b m p onProgress s = Some y"
    and op: "onProgress = (\<lambda>progress. updateNodeData n (upd progress))"
  shows "same_others n s (snd y)"
proof (cases "truthy p")
  case False
  with assms(1) show ?thesis by (auto simp: generateVideo_def same_others_refl)
next
  case True
  with assms(1) obtain z where z: "generateVideo_try env b m p onProgress s = Some z"
    by (auto simp: generateVideo_def split: option.splits)
  have up: "same_others n x (onProgress msg x)" for x msg
    unfolding op by (rule same_others_update)
  from same_others_generateVideo_try[OF z op] have a: "same_others n s (snd z)" .
  from assms(1) True z have "snd y = snd z \<or> (\<exists>msg. snd y = onProgress msg (snd z))"
    by (auto simp: generateVideo_def split: sum.splits prod.splits)
  with a up show ?thesis by (auto intro: same_others_trans)
qed

lemma same_others_runImageEditor: "same_others n s (snd (runImageEditor env n ins s))"
proof -
  have e: "same_others n s (snd (editImage env d m p s))" for d m p
    by (rule frame_same_others[OF frame_editImage])
  have g: "same_others n s (snd (generateImage env p s))" for p
    by (rule frame_same_others[OF frame_generateImage])
  have h: "same_others n s (addHistory env url p (snd (editImage env d m q s)))" for url p d m q
    using e same_others_addHistory by (rule same_others_trans)
  have h2: "same_others n s (addHistory env url p (snd (generateImage env q s)))" for url p q
    using g same_others_addHistory by (rule same_others_trans)
  show ?thesis
    by (simp add: runImageEditor_def Let_def split_beta same_others_refl e g h h2
          split: sum.splits option.splits val.splits)
qed

lemma same_others_runPreset: "same_others n s (snd (runPreset env edges node n ins s))"
proof -
  have e: "same_others n s (snd (executePreset env fs p s))" for fs p
    by (rule frame_same_others[OF frame_executePreset])
  have h: "same_others n s (addHistory env url p (snd (executePreset env fs q s)))" for url p fs q
    using e same_others_addHistory by (rule same_others_trans)
  show ?thesis
    by (simp add: runPreset_def Let_def split_beta same_others_refl e h
          split: sum.splits option.splits list.splits)
qed

lemma same_others_runVideoGenerator:
  assumes "runVideoGenerator env n ins s = Some y"
  shows "same_others n s (snd y)"
proof (cases "processImageInput (lookup ins (n @ ''-input-image''))")
  case (Inl e)
  with assms show ?thesis by (auto simp: runVideoGenerator_def same_others_refl)
next
  case (Inr imageFile)
  let ?op = "\<lambda>progress. updateNodeData n (\<lambda>d. d\<lparr>content := Progress progress\<rparr>)"
  from assms Inr obtain z where
    z: "generateVideo env (case imageFile of None \<Rightarrow> None | Some (d, m) \<Rightarrow> d)
          (map_option snd imageFile) (lookup ins (n @ ''-input-text'')) ?op s = Some z"
    and y: "snd y = snd z"
    by (auto simp: runVideoGenerator_def split: option.splits prod.splits)
  from same_others_generateVideo[OF z refl] y show ?thesis by simp
qed

lemma same_others_dispatch:
  assumes "dispatch env edges node n ins s = Some y"
  shows "same_others n s (snd y)"
proof (cases "ntype node")
  case TEXT_GENERATOR
  with assms frame_same_others[OF frame_generateText[of s env "lookup ins (n @ ''-input'')"], of n]
  show ?thesis by (auto simp: dispatch_def split: prod.splits)
next
  case IMAGE_EDITOR
  with assms same_others_runImageEditor[of n s env ins] show ?thesis
    by (auto simp: dispatch_def)
next
  case PROMPT_PRESET
  with assms same_others_runPreset[of n s env edges node ins] show ?thesis
    by (auto simp: dispatch_def)
next
  case VIDEO_GENERATOR
  with assms same_others_runVideoGenerator[of env n ins s y] show ?thesis
    by (auto simp: dispatch_def)
qed (use assms in \<open>auto simp: dispatch_def same_others_refl\<close>)

lemma same_others_runMuted: "same_others n s (runMuted node n ins s)"
  using same_others_update[of n s "\<lambda>d. d\<lparr>status := COMPLETED\<rparr>"]
  by (auto simp: runMuted_def Let_def same_others_def split: list.splits)

lemma same_others_fields:
  "same_others n s (s'\<lparr>nodeOutputs := x\<rparr>) = same_others n s s'"
  "same_others n s (s'\<lparr>isProcessing := b\<rparr>) = same_others n s s'"
  by (simp_all add: same_others_def)

lemma same_others_runNode:
  assumes "runNode env nodes edges n s = Some y"
  shows "same_others n s (snd y)"
proof (cases "map_of nodes n")
  case None
  with assms show ?thesis by (auto simp: runNode_def same_others_refl)
next
  case (Some node)
  show ?thesis
  proof (cases "isMuted (data node)")
    case True
    with assms Some same_others_runMuted show ?thesis by (auto simp: runNode_def)
  next
    case False
    let ?s1 = "updateNodeData n (\<lambda>d. d\<lparr>status := PROCESSING, content := Progress ''Starting...''\<rparr>) s"
    let ?ins = "gatherInputs edges (nodeOutputs s) n"
    have a: "same_others n s ?s1" by (rule same_others_update)
    from assms Some False obtain z where z: "dispatch env edges node n ?ins ?s1 = Some z"
      by (cases "dispatch env edges node n ?ins ?s1") (simp_all add: runNode_def Let_def)
    from same_others_dispatch[OF z] a have b: "same_others n s (snd z)"
      by (rule same_others_trans[rotated])
    obtain r s2 where zz: "z = (r, s2)" by (cases z)
    have c: "same_others n s (updateNodeData n upd s2)" for upd
      using b zz same_others_update[of n s2 upd] by (auto intro: same_others_trans)
    from assms Some False z zz show ?thesis
      by (cases r) (auto simp: runNode_def Let_def same_others_fields c)
  qed
qed

lemma schedule_Inr_order:
  assumes "wf_record nodes" and "schedule nodes edges = Inr ord"
  shows "distinct ord \<and> set ord \<subseteq> set (Object_keys nodes)"
proof -
  let ?ns = "Object_keys nodes" and ?es = "Object_values edges"
  from assms(1) have d: "distinct ?ns" by (simp add: wf_record_def distinct_Object_keys)
  have sp: "sources_present ?ns ?es"
  proof (rule ccontr)
    assume "\<not> sources_present ?ns ?es"
    then have "\<exists>e \<in> set ?es. map_of (init_record ([]::string list) ?ns) (sourceNodeId e) = None"
      by (auto simp: sources_present_def list_all_iff map_of_init_record)
    from addEdges_fail[OF this, of "init_record (Num 0) ?ns"] assms(2) show False
      by (auto simp: schedule_def Let_def)
  qed
  from schedule_inv[OF d refl refl sp] assms(2) obtain d' where "kahn_inv ?ns ?es [] ord d'"
    by auto
  then show ?thesis unfolding kahn_inv_def by auto
qed

lemma map_of_resetNodes: "map_of (resetNodes nodes) m = map_option resetNode (map_of nodes m)"
  by (induction nodes) (auto simp: resetNodes_def)

lemma runNodes_append:
  "runNodes env nodes edges (xs @ ys) s =
     (case runNodes env nodes edges xs s of
        Some (Continue, s') \<Rightarrow> runNodes env nodes edges ys s'
      | other \<Rightarrow> other)"
  by (induction xs arbitrary: s) (auto split: option.splits step_result.splits)

lemma runNodes_others:
  assumes "runNodes env nodes edges ids s = Some (r, s')"
  shows "(\<forall>m. m \<notin> set ids \<longrightarrow> map_of (store s') m = map_of (store s) m)
     \<and> dom (map_of (store s')) = dom (map_of (store s))"
  using assms
proof (induction ids arbitrary: s)
  case Nil
  then show ?case by simp
next
  case (Cons i ids)
  from Cons.prems obtain r1 s1 where a: "runNode env nodes edges i s = Some (r1, s1)"
    by (cases "runNode env nodes edges i s") auto
  from same_others_runNode[OF a] have so: "same_others i s s1" by simp
  show ?case
  proof (cases "r1 = Continue")
    case True
    with Cons.prems a have "runNodes env nodes edges ids s1 = Some (r, s')" by simp
    from Cons.IH[OF this] so show ?thesis by (auto simp: same_others_def)
  next
    case False
    with Cons.prems a have "s' = s1" by (cases r1) auto
    with so show ?thesis by (auto simp: same_others_def)
  qed
qed

lemma runNode_Continue_completed:
  assumes "runNode env nodes edges n s = Some (Continue, s')" and "n \<in> dom (map_of (store s))"
  shows "\<exists>nd. map_of (store s') n = Some nd \<and> status (data nd) = COMPLETED"
proof -
  from assms(1) obtain node where node: "map_of nodes n = Some node"
    by (cases "map_of nodes n") (auto simp: runNode_def)
  have upd: "\<exists>nd. map_of (store (updateNodeData n (\<lambda>d. d\<lparr>status := COMPLETED, content := c\<rparr>) x)) n = Some nd
                  \<and> status (data nd) = COMPLETED"
    if "n \<in> dom (map_of (store x))" for x c
    using that by (auto simp: updateNodeData_def update_conv')
  show ?thesis
  proof (cases "isMuted (data node)")
    case True
    with assms node show ?thesis
      by (auto simp: runNode_def runMuted_def Let_def updateNodeData_def update_conv'
            split: list.splits)
  next
    case False
    let ?s1 = "updateNodeData n (\<lambda>d. d\<lparr>status := PROCESSING, content := Progress ''Starting...''\<rparr>) s"
    let ?ins = "gatherInputs edges (nodeOutputs s) n"
    from assms(1) node False obtain out s2 where
      z: "dispatch env edges node n ?ins ?s1 = Some (Inr out, s2)"
      and s': "s' = (updateNodeData n (\<lambda>d. d\<lparr>status := COMPLETED, content := out\<rparr>) s2)
                      \<lparr>nodeOutputs := routeOutputs node out (nodeOutputs s2)\<rparr>"
      by (auto simp: runNode_def Let_def split: option.splits sum.splits)
    from same_others_dispatch[OF z] same_others_update[of n s] assms(2)
    have "n \<in> dom (map_of (store s2))" by (auto simp: same_others_def)
    from upd[OF this, of out] s' show ?thesis by simp
  qed
qed

lemma runNodes_completed:
  assumes "runNodes env nodes edges ids s = Some (Continue, s')"
    and "distinct ids" and "set ids \<subseteq> dom (map_of (store s))"
  shows "\<forall>m \<in> set ids. \<exists>nd. map_of (store s') m = Some nd \<and> status (data nd) = COMPLETED"
  using assms
proof (induction ids arbitrary: s)
  case Nil
  then show ?case by simp
next
  case (Cons i ids)
  from Cons.prems(1) obtain s1 where a: "runNode env nodes edges i s = Some (Continue, s1)"
    and b: "runNodes env nodes edges ids s1 = Some (Continue, s')"
    by (auto split: option.splits step_result.splits)
  from same_others_runNode[OF a] have so: "same_others i s s1" by simp
  from Cons.prems(3) have "i \<in> dom (map_of (store s))" by simp
  from runNode_Continue_completed[OF a this] obtain nd where
    nd: "map_of (store s1) i = Some nd" "status (data nd) = COMPLETED" by blast
  from runNodes_others[OF b] Cons.prems(2) have "map_of (store s') i = map_of (store s1) i" by simp
  with nd have i: "\<exists>nd. map_of (store s') i = Some nd \<and> status (data nd) = COMPLETED" by simp
  from so Cons.prems(3) have "set ids \<subseteq> dom (map_of (store s1))" by (auto simp: same_others_def)
  from Cons.IH[OF b _ this] Cons.prems(2) i show ?case by simp
qed

text \<open>
  Claim C2: let the execution order be \<open>pre @ n # post\<close>, let the nodes of \<open>pre\<close> have
  run through, and let the dispatch of the unmuted node \<open>n\<close> throw \<open>error\<close>. Then the run
  ends there: \<open>n\<close> has status \<^verbatim>\<open>ERROR\<close> and the error's message as \<^verbatim>\<open>errorMessage\<close>, every
  node of \<open>post\<close> is as the reset at the start of the run left it, with status \<^verbatim>\<open>IDLE\<close>,
  and every node of \<open>pre\<close> is \<^verbatim>\<open>COMPLETED\<close> and exactly as it was when \<open>n\<close> started.
\<close>

theorem run_halts_on_failure:
  assumes wf: "wf_record nodes"
    and sched: "schedule nodes edges = Inr (pre @ n # post)"
    and pre: "runNodes env nodes edges pre (initial_state nodes h w) = Some (Continue, s1)"
    and node: "map_of nodes n = Some node" "\<not> isMuted (data node)"
    and throws: "dispatch env edges node n (gatherInputs edges (nodeOutputs s1) n)
                   (updateNodeData n
                      (\<lambda>d. d\<lparr>status := PROCESSING, content := Progress ''Starting...''\<rparr>) s1)
                 = Some (Inl error, s2)"
  shows "\<exists>s3. runWorkflow env nodes edges h w = Some (Halt, s3)
     \<and> \<not> isProcessing s3 \<and> history s3 = history s2
     \<and> (\<exists>nd. map_of (store s3) n = Some nd \<and> status (data nd) = ERROR
              \<and> errorMessage (data nd) = Some (message_of error))
     \<and> (\<forall>m \<in> set post. \<exists>nd. map_of (store s3) m = Some nd \<and> status (data nd) = IDLE
              \<and> map_of (resetNodes nodes) m = Some nd)
     \<and> (\<forall>m \<in> set pre. \<exists>nd. map_of (store s3) m = Some nd \<and> map_of (store s1) m = Some nd
              \<and> status (data nd) = COMPLETED)"
proof -
  let ?s0 = "initial_state nodes h w"
  let ?s1' = "updateNodeData n (\<lambda>d. d\<lparr>status := PROCESSING, content := Progress ''Starting...''\<rparr>) s1"
  let ?s3 = "(updateNodeData n (\<lambda>d. d\<lparr>status := ERROR, errorMessage := Some (message_of error)\<rparr>) s2)
               \<lparr>isProcessing := False\<rparr>"
  from schedule_Inr_order[OF wf sched] have dist: "distinct (pre @ n # post)"
    and sub: "set (pre @ n # post) \<subseteq> set (Object_keys nodes)" by simp_all
  have "map fst (resetNodes nodes) = map fst nodes"
    by (induction nodes) (auto simp: resetNodes_def)
  then have "fst ` set (resetNodes nodes) = fst ` set nodes"
    by (metis list.set_map)
  then have dom0: "dom (map_of (store ?s0)) = set (Object_keys nodes)"
    by (simp add: initial_state_def set_Object_keys dom_map_of_conv_image_fst)
  have st0: "map_of (store ?s0) m = map_of (resetNodes nodes) m" for m
    by (simp add: initial_state_def)
  from runNodes_others[OF pre] have o1: "\<And>m. m \<notin> set pre \<Longrightarrow> map_of (store s1) m = map_of (store ?s0) m"
    and dom1: "dom (map_of (store s1)) = dom (map_of (store ?s0))" by simp_all
  have rn: "runNode env nodes edges n s1 = Some (Halt, ?s3)"
    using node throws by (simp add: runNode_def Let_def)
  from same_others_runNode[OF rn] have so: "same_others n s1 ?s3" by simp
  have run: "runNodes env nodes edges (pre @ n # post) ?s0 = Some (Halt, ?s3)"
    using pre rn by (simp add: runNodes_append)
  have wfl: "runWorkflow env nodes edges h w = Some (Halt, ?s3)"
    using sched run by (simp add: runWorkflow_def)
  from same_others_dispatch[OF throws] same_others_update[of n s1] have so2: "same_others n s1 s2"
    by (auto intro: same_others_trans)
  from sub dom0 dom1 have "n \<in> dom (map_of (store s1))" by auto
  with so2 have "n \<in> dom (map_of (store s2))" by (simp add: same_others_def)
  then have nerr: "\<exists>nd. map_of (store ?s3) n = Some nd \<and> status (data nd) = ERROR
              \<and> errorMessage (data nd) = Some (message_of error)"
    by (auto simp: updateNodeData_def update_conv')
  have post: "\<exists>nd. map_of (store ?s3) m = Some nd \<and> status (data nd) = IDLE
              \<and> map_of (resetNodes nodes) m = Some nd" if "m \<in> set post" for m
  proof -
    from that dist have mn: "m \<noteq> n" "m \<notin> set pre" by auto
    from that sub have "m \<in> set (Object_keys nodes)" by auto
    then have "m \<in> dom (map_of nodes)"
      by (simp add: set_Object_keys dom_map_of_conv_image_fst)
    then obtain x where x: "map_of nodes m = Some x" by blast
    from so mn(1) o1[OF mn(2)] have "map_of (store ?s3) m = map_of (resetNodes nodes) m"
      by (simp add: same_others_def st0)
    with x show ?thesis by (simp add: map_of_resetNodes resetNode_def)
  qed
  have prec: "\<exists>nd. map_of (store ?s3) m = Some nd \<and> map_of (store s1) m = Some nd
              \<and> status (data nd) = COMPLETED" if "m \<in> set pre" for m
  proof -
    from that dist have mn: "m \<noteq> n" by auto
    from dist have dp: "distinct pre" by simp
    from sub dom0 have sp: "set pre \<subseteq> dom (map_of (store ?s0))" by auto
    from runNodes_completed[OF pre dp sp] that obtain nd where
      "map_of (store s1) m = Some nd" "status (data nd) = COMPLETED" by blast
    with so mn show ?thesis by (simp add: same_others_def)
  qed
  have "history ?s3 = history s2" by (simp add: updateNodeData_def split: option.splits)
  with wfl nerr post prec show ?thesis by (intro exI[of _ ?s3]) simp
qed

text \<open>A text input, an image editor with nothing connected to its prompt, and an output
  display behind the editor: the run halts at the editor.\<close>

theorem run_halts_on_failure_witness:
  "\<exists>s3. runWorkflow ex_env ex_nodes_editor ex_edges_unwired [] world0 = Some (Halt, s3)
     \<and> \<not> isProcessing s3
     \<and> map_option (\<lambda>n. (status (data n), errorMessage (data n))) (map_of (store s3) ''ed'')
         = Some (ERROR, Some ''A text prompt is required for image generation/editing.'')
     \<and> map_option (\<lambda>n. status (data n)) (map_of (store s3) ''out'') = Some IDLE
     \<and> map_option (\<lambda>n. (status (data n), content (data n))) (map_of (store s3) ''t'')
         = Some (COMPLETED, Str ''make it blue'')"
proof -
  let ?s0 = "initial_state ex_nodes_editor [] world0"
  let ?node = "created ''ed'' IMAGE_EDITOR"
  have h1: "wf_record ex_nodes_editor" by (simp add: wf_record_def ex_nodes_editor_def)
  have h2: "schedule ex_nodes_editor ex_edges_unwired = Inr ([''t''] @ ''ed'' # [''out''])"
    by (simp add: sched_defs ex_nodes_editor_def ex_edges_unwired_def ex_defs)
  obtain s1 where h3: "runNodes ex_env ex_nodes_editor ex_edges_unwired [''t''] ?s0 = Some (Continue, s1)"
    and t1: "map_option (\<lambda>n. content (data n)) (map_of (store s1) ''t'') = Some (Str ''make it blue'')"
    by (simp add: run_defs ex_nodes_editor_def ex_edges_unwired_def ex_defs Let_def)
  have h4: "map_of ex_nodes_editor ''ed'' = Some ?node" by (simp add: ex_nodes_editor_def)
  have h5: "\<not> isMuted (data ?node)" by (simp add: ex_defs)
  let ?s1' = "updateNodeData ''ed''
                (\<lambda>d. d\<lparr>status := PROCESSING, content := Progress ''Starting...''\<rparr>) s1"
  have h6: "dispatch ex_env ex_edges_unwired ?node ''ed''
              (gatherInputs ex_edges_unwired (nodeOutputs s1) ''ed'') ?s1'
            = Some (Inl (Error ''A text prompt is required for image generation/editing.''), ?s1')"
    by (simp add: dispatch_def runImageEditor_def gatherInputs_def ex_edges_unwired_def
          lookup_def Let_def ex_defs)
  from run_halts_on_failure[OF h1 h2 h3 h4 h5 h6] t1
  show ?thesis by auto
qed

text \<open>
  Claim C3 fails on the code. In the run below the SDK call of the text generator
  \<open>n1\<close> throws an error that is not a rate-limit error. \<^verbatim>\<open>generateText\<close> catches it and
  returns the formatted message as its result, so the node gets status \<^verbatim>\<open>COMPLETED\<close>
  with the message as content and no \<^verbatim>\<open>errorMessage\<close>, the run goes on, and the output
  display \<open>n2\<close> shows the message.
\<close>

theorem text_generator_error_completes:
  "map_option
     (\<lambda>(r, s). (r, api_log s,
        map_option (\<lambda>n. (status (data n), content (data n), errorMessage (data n)))
          (map_of (store s) ''n1''),
        map_option (\<lambda>n. (status (data n), content (data n))) (map_of (store s) ''n2'')))
     (runWorkflow ex_env ex_nodes_text ex_edges3 [] world0)
   = Some (Continue, [GenerateContent (TextRequest ''gemini-2.5-flash'' (Str ''a cat''))],
           Some (COMPLETED, Str ''Error: boom'', None),
           Some (COMPLETED, Str ''Error: boom''))"
  by code_simp

text \<open>No unmuted text generator ever ends a run: whatever its call does, the loop goes on.\<close>

lemma text_generator_never_halts:
  assumes "map_of nodes n = Some node" and "ntype node = TEXT_GENERATOR"
    and "\<not> isMuted (data node)"
  shows "\<exists>s'. runNode env nodes edges n s = Some (Continue, s')"
  using assms by (simp add: runNode_def dispatch_def Let_def split: prod.splits)

lemma log_withRetry_from:
  "\<exists>k. api_log (snd (withRetry_from env (invoke c f) i e s)) = api_log s @ replicate k c
       \<and> (\<forall>v. fst (withRetry_from env (invoke c f) i e s) = Inr v \<longrightarrow> 0 < k)"
proof (induction env "invoke c f :: 'a world_scheme \<Rightarrow> (js_error + 'b) \<times> 'a world_scheme" i e s
         rule: withRetry_from.induct)
  case (1 env i lastError w)
  let ?call = "invoke c f :: 'a world_scheme \<Rightarrow> (js_error + 'b) \<times> 'a world_scheme"
  show ?case
  proof (cases "i < MAX_RETRIES")
    case False
    then show ?thesis by (simp add: withRetry_from.simps[of env ?call i])
  next
    case True
    let ?w1 = "w\<lparr>api_log := api_log w @ [c]\<rparr>"
    have c: "?call w = (f (length (api_log w)), ?w1)" by (simp add: invoke_def)
    show ?thesis
    proof (cases "f (length (api_log w))")
      case (Inr v)
      with True c have "withRetry_from env ?call i lastError w = (Inr v, ?w1)"
        by (simp add: withRetry_from.simps[of env ?call i])
      then show ?thesis by (auto intro: exI[of _ "Suc 0"])
    next
      case (Inl error)
      show ?thesis
      proof (cases "isRateLimitError env error \<and> i < MAX_RETRIES - 1")
        case False
        with True c Inl have "withRetry_from env ?call i lastError w = (Inl error, ?w1)"
          by (auto simp: withRetry_from.simps[of env ?call i])
        then show ?thesis by (auto intro: exI[of _ "Suc 0"])
      next
        case rl: True
        obtain r w2 where rn: "random_next env ?w1 = (r, w2)" by (cases "random_next env ?w1")
        then have l2: "api_log w2 = api_log ?w1" by (auto simp: random_next_def)
        let ?w3 = "delay (INITIAL_DELAY_MS * 2 ^ i + r * 1000) w2"
        have l3: "api_log ?w3 = api_log w @ [c]" using l2 by (simp add: delay_def)
        have eq: "withRetry_from env ?call i lastError w
                    = withRetry_from env ?call (i + 1) error ?w3"
          using True c Inl rl rn by (simp add: withRetry_from.simps[of env ?call i] Let_def)
        from "1.hyps"[OF True c[symmetric] Inl conjunct1[OF rl] conjunct2[OF rl] refl refl
                  rn[symmetric] refl refl]
        obtain k where k: "api_log (snd (withRetry_from env ?call (i + 1) error ?w3))
                             = api_log ?w3 @ replicate k c" by blast
        have "api_log (snd (withRetry_from env ?call i lastError w))
                = api_log w @ replicate (Suc k) c"
          unfolding eq k l3 by (simp add: replicate_append_same)
        then show ?thesis by blast
      qed
    qed
  qed
qed

lemma log_editImage:
  assumes "editImage env d m p s = (result, s2)" and "if_truthy (newBase64Image result) = Some b"
  shows "\<exists>k>0. api_log s2 = api_log s @ replicate k
           (GenerateContent (PartsRequest ''gemini-2.5-flash-image-preview'' [(d, m)] p))"
proof -
  let ?c = "GenerateContent (PartsRequest ''gemini-2.5-flash-image-preview'' [(d, m)] p)"
  let ?f = "\<lambda>k. generateContent env k (PartsRequest ''gemini-2.5-flash-image-preview'' [(d, m)] p)"
  let ?r = "withRetry_from env (invoke ?c ?f) 0 (NonError ''undefined'') s"
  from log_withRetry_from[of env ?c ?f 0 "NonError ''undefined''" s] obtain k where
    k: "api_log (snd ?r) = api_log s @ replicate k ?c" "\<And>v. fst ?r = Inr v \<Longrightarrow> 0 < k" by blast
  from assms have "\<exists>v. ?r = (Inr v, s2)"
    by (auto simp: editImage_def generateContentWithRetry_def withRetry_def if_truthy_def
          split: if_splits prod.splits sum.splits)
  with k show ?thesis by auto
qed

lemma formatError_not_data: "\<not> startsWith (formatError env e) ''data:image''"
  by (simp add: formatError_def Let_def startsWith_def)

lemma log_generateImage:
  assumes "generateImage env p s = (Str r, s2)" and "startsWith r ''data:image''"
  shows "\<exists>k>0. api_log s2 = api_log s @ replicate k (GenerateImages p)"
proof -
  let ?c = "GenerateImages p"
  let ?f = "\<lambda>k. generateImages env k p"
  let ?r = "withRetry_from env (invoke ?c ?f) 0 (NonError ''undefined'') s"
  from log_withRetry_from[of env ?c ?f 0 "NonError ''undefined''" s] obtain k where
    k: "api_log (snd ?r) = api_log s @ replicate k ?c" "\<And>v. fst ?r = Inr v \<Longrightarrow> 0 < k" by blast
  have ne: "\<not> startsWith (''Error: '' @ x) ''data:image''" for x
    by (simp add: startsWith_def)
  from assms ne[of "''Prompt is empty.''"] ne[of "''Image generation failed to produce an image.''"]
    formatError_not_data[of env]
  have "\<exists>v. ?r = (Inr v, s2)"
    by (auto simp: generateImage_def generateImagesWithRetry_def withRetry_def
          split: if_splits prod.splits sum.splits list.splits option.splits)
  with k show ?thesis by auto
qed

text \<open>
  Claim C8: an unmuted image editor node whose turn comes, with \<open>textInput\<close> and
  \<open>imageInput\<close> the values at its two input handles. With a falsy prompt the node fails
  with the validation message, no SDK call is made and the history is unchanged. With
  a truthy prompt and a usable image (a \<^verbatim>\<open>File\<close> or a \<^verbatim>\<open>data:image\<close> URL), when the edit
  call returns an image the node completes with the structured content
  \<^verbatim>\<open>{image, text}\<close>. With a truthy prompt and no usable image, when the generation call
  returns a data URL the node completes with \<^verbatim>\<open>{image, text: null}\<close>. In both success
  cases the SDK was called at least once with that request, and the history gained
  exactly one item, the produced image with the prompt, at its front.
\<close>

theorem image_editor_cases:
  assumes node: "map_of nodes nodeId = Some node" "ntype node = IMAGE_EDITOR"
      "\<not> isMuted (data node)"
    and st: "map_of (store s) nodeId = Some n"
    and ins: "ins = gatherInputs edges (nodeOutputs s) nodeId"
    and ti: "textInput = lookup ins (nodeId @ ''-input-text'')"
    and ii: "imageInput = lookup ins (nodeId @ ''-input-image'')"
    and s1: "s1 = updateNodeData nodeId
                    (\<lambda>d. d\<lparr>status := PROCESSING, content := Progress ''Starting...''\<rparr>) s"
  shows "(\<not> truthy textInput \<longrightarrow>
            (\<exists>s'. runNode env nodes edges nodeId s = Some (Halt, s')
               \<and> api_log s' = api_log s \<and> history s' = history s
               \<and> (\<exists>nd. map_of (store s') nodeId = Some nd \<and> status (data nd) = ERROR
                     \<and> errorMessage (data nd)
                         = Some ''A text prompt is required for image generation/editing.'')))
     \<and> (\<forall>d mimeType result s2 b.
            truthy textInput \<and> processImageInput imageInput = Inr (Some (d, mimeType))
            \<and> editImage env d mimeType textInput s1 = (result, s2)
            \<and> if_truthy (newBase64Image result) = Some b \<longrightarrow>
            (\<exists>s'. runNode env nodes edges nodeId s = Some (Continue, s')
               \<and> (\<exists>nd. map_of (store s') nodeId = Some nd \<and> status (data nd) = COMPLETED
                     \<and> content (data nd)
                         = ImageText (''data:'' @ mimeType @ '';base64,'' @ b)
                             (text_val (res_text result)))
               \<and> history s' = \<lparr>hist_id = randomUUID env (uuid_draws s),
                                dataUrl = ''data:'' @ mimeType @ '';base64,'' @ b,
                                hist_prompt = textInput\<rparr> # history s
               \<and> (\<exists>k>0. api_log s' = api_log s @ replicate k
                     (GenerateContent (PartsRequest ''gemini-2.5-flash-image-preview''
                        [(d, mimeType)] textInput)))))
     \<and> (\<forall>r s2.
            truthy textInput \<and> processImageInput imageInput = Inr None
            \<and> generateImage env textInput s1 = (Str r, s2) \<and> startsWith r ''data:image'' \<longrightarrow>
            (\<exists>s'. runNode env nodes edges nodeId s = Some (Continue, s')
               \<and> (\<exists>nd. map_of (store s') nodeId = Some nd \<and> status (data nd) = COMPLETED
                     \<and> content (data nd) = ImageText r Null)
               \<and> history s' = \<lparr>hist_id = randomUUID env (uuid_draws s), dataUrl = r,
                                hist_prompt = textInput\<rparr> # history s
               \<and> (\<exists>k>0. api_log s' = api_log s @ replicate k (GenerateImages textInput))))"
proof (intro conjI allI impI)
  have s1': "s1 = s\<lparr>store := AList.update nodeId
                 (n\<lparr>data := (data n)\<lparr>status := PROCESSING, content := Progress ''Starting...''\<rparr>\<rparr>)
                 (store s)\<rparr>"
    using st by (simp add: s1 updateNodeData_def)
  have disp: "dispatch env edges node nodeId ins s1 = Some (runImageEditor env nodeId ins s1)"
    using node(2) by (simp add: dispatch_def)
  have rn: "runNode env nodes edges nodeId s =
      (case runImageEditor env nodeId ins s1 of
         (Inr output, s2) \<Rightarrow>
            Some (Continue,
              (updateNodeData nodeId (\<lambda>d. d\<lparr>status := COMPLETED, content := output\<rparr>) s2)
                \<lparr>nodeOutputs := routeOutputs node output (nodeOutputs s2)\<rparr>)
       | (Inl error, s2) \<Rightarrow>
            Some (Halt,
              (updateNodeData nodeId
                 (\<lambda>d. d\<lparr>status := ERROR, errorMessage := Some (message_of error)\<rparr>) s2)
                \<lparr>isProcessing := False\<rparr>))"
    using node(1,3) disp by (simp add: runNode_def Let_def ins[symmetric] s1[symmetric]
        split: prod.splits sum.splits)
  have upd: "\<exists>nd. map_of (store (updateNodeData nodeId f x)) nodeId = Some nd
                \<and> data nd = f (data nd0)"
    if "map_of (store x) nodeId = Some nd0" for x f nd0
    using that by (simp add: updateNodeData_def update_conv')
  have hist_upd: "history (updateNodeData nodeId f x) = history x"
      "api_log (updateNodeData nodeId f x) = api_log x" for f x
    by (simp_all add: updateNodeData_def split: option.splits)
  have st1: "\<exists>nd0. map_of (store s1) nodeId = Some nd0" by (simp add: s1' update_conv')
  have ah: "api_log (addHistory env u p x) = api_log x"
    "store (addHistory env u p x) = store x"
    "history (addHistory env u p x)
       = \<lparr>hist_id = randomUUID env (uuid_draws x), dataUrl = u, hist_prompt = p\<rparr> # history x"
    for u p x
    by (simp_all add: addHistory_def uuid_next_def)
  {
    assume nt: "\<not> truthy textInput"
    have r: "runImageEditor env nodeId ins s1 =
        (Inl (Error ''A text prompt is required for image generation/editing.''), s1)"
      using nt by (simp add: runImageEditor_def Let_def ti[symmetric])
    from st1 obtain nd0 where nd0: "map_of (store s1) nodeId = Some nd0" by blast
    from upd[OF nd0, of "\<lambda>d. d\<lparr>status := ERROR, errorMessage :=
        Some ''A text prompt is required for image generation/editing.''\<rparr>"]
    show "\<exists>s'. runNode env nodes edges nodeId s = Some (Halt, s')
               \<and> api_log s' = api_log s \<and> history s' = history s
               \<and> (\<exists>nd. map_of (store s') nodeId = Some nd \<and> status (data nd) = ERROR
                     \<and> errorMessage (data nd)
                         = Some ''A text prompt is required for image generation/editing.'')"
      unfolding rn r by (auto simp: hist_upd s1')
  }
  {
    fix d mimeType result s2 b
    assume a: "truthy textInput \<and> processImageInput imageInput = Inr (Some (d, mimeType))
            \<and> editImage env d mimeType textInput s1 = (result, s2)
            \<and> if_truthy (newBase64Image result) = Some b"
    let ?url = "''data:'' @ mimeType @ '';base64,'' @ b"
    let ?out = "ImageText ?url (text_val (res_text result))"
    have r: "runImageEditor env nodeId ins s1 = (Inr ?out, addHistory env ?url textInput s2)"
      using a by (simp add: runImageEditor_def Let_def ti[symmetric] ii[symmetric])
    from frame_editImage[of s1 env d mimeType textInput] a have fr: "frame s1 s2" by simp
    then have f2: "store s2 = store s1" "history s2 = history s" "uuid_draws s2 = uuid_draws s"
      by (simp_all add: frame_def s1')
    from log_editImage[of env d mimeType textInput s1 result s2 b] a
    obtain k where k: "0 < k" "api_log s2 = api_log s @ replicate k
          (GenerateContent (PartsRequest ''gemini-2.5-flash-image-preview'' [(d, mimeType)] textInput))"
      by (auto simp: s1')
    let ?s3 = "addHistory env ?url textInput s2"
    from st1 f2(1) obtain nd0 where nd0: "map_of (store ?s3) nodeId = Some nd0"
      by (auto simp: ah)
    from upd[OF nd0, of "\<lambda>d. d\<lparr>status := COMPLETED, content := ?out\<rparr>"] k
    show "\<exists>s'. runNode env nodes edges nodeId s = Some (Continue, s')
               \<and> (\<exists>nd. map_of (store s') nodeId = Some nd \<and> status (data nd) = COMPLETED
                     \<and> content (data nd) = ?out)
               \<and> history s' = \<lparr>hist_id = randomUUID env (uuid_draws s), dataUrl = ?url,
                                hist_prompt = textInput\<rparr> # history s
               \<and> (\<exists>k>0. api_log s' = api_log s @ replicate k
                     (GenerateContent (PartsRequest ''gemini-2.5-flash-image-preview''
                        [(d, mimeType)] textInput)))"
      unfolding rn r by (auto simp: hist_upd ah f2)
  }
  {
    fix r s2
    assume a: "truthy textInput \<and> processImageInput imageInput = Inr None
            \<and> generateImage env textInput s1 = (Str r, s2) \<and> startsWith r ''data:image''"
    then have rne: "r \<noteq> []" by (auto simp: startsWith_def)
    let ?out = "ImageText r Null"
    have rr: "runImageEditor env nodeId ins s1 = (Inr ?out, addHistory env r textInput s2)"
      using a rne by (simp add: runImageEditor_def Let_def ti[symmetric] ii[symmetric])
    from frame_generateImage[of s1 env textInput] a have fr: "frame s1 s2" by simp
    then have f2: "store s2 = store s1" "history s2 = history s" "uuid_draws s2 = uuid_draws s"
      by (simp_all add: frame_def s1')
    from log_generateImage[of env textInput s1 r s2] a
    obtain k where k: "0 < k" "api_log s2 = api_log s @ replicate k (GenerateImages textInput)"
      by (auto simp: s1')
    let ?s3 = "addHistory env r textInput s2"
    from st1 f2(1) obtain nd0 where nd0: "map_of (store ?s3) nodeId = Some nd0"
      by (auto simp: ah)
    from upd[OF nd0, of "\<lambda>d. d\<lparr>status := COMPLETED, content := ?out\<rparr>"] k
    show "\<exists>s'. runNode env nodes edges nodeId s = Some (Continue, s')
               \<and> (\<exists>nd. map_of (store s') nodeId = Some nd \<and> status (data nd) = COMPLETED
                     \<and> content (data nd) = ImageText r Null)
               \<and> history s' = \<lparr>hist_id = randomUUID env (uuid_draws s), dataUrl = r,
                                hist_prompt = textInput\<rparr> # history s
               \<and> (\<exists>k>0. api_log s' = api_log s @ replicate k (GenerateImages textInput))"
      unfolding rn rr by (auto simp: hist_upd ah f2)
  }
qed

text \<open>The three cases: nothing connected; an image and a prompt connected and an edit
  call that answers with an image; only a prompt connected and a generation call that
  answers with an image.\<close>

theorem image_editor_cases_witness:
  "(\<exists>s'. runNode ex_env ex_nodes_editor ex_edges_unwired ''ed'' (ex_state ex_nodes_editor [])
            = Some (Halt, s')
        \<and> api_log s' = [] \<and> history s' = []
        \<and> map_option (\<lambda>n. status (data n)) (map_of (store s') ''ed'') = Some ERROR)
   \<and> (\<exists>s'. runNode ex_env_ok ex_nodes_editor ex_edges_editor ''ed''
              (ex_state ex_nodes_editor
                 [(''img-output'', Str ''data:image/png;base64,UkVE''),
                  (''t-output'', Str ''make it blue'')])
            = Some (Continue, s')
        \<and> map_option (\<lambda>n. (status (data n), content (data n))) (map_of (store s') ''ed'')
            = Some (COMPLETED, ImageText ''data:image/png;base64,QkxVRQ=='' (Str ''done''))
        \<and> history s' = [\<lparr>hist_id = ''uuid-0'', dataUrl = ''data:image/png;base64,QkxVRQ=='',
                           hist_prompt = Str ''make it blue''\<rparr>])
   \<and> (\<exists>s'. runNode ex_env_ok ex_nodes_editor ex_edges_editor ''ed''
              (ex_state ex_nodes_editor [(''t-output'', Str ''make it blue'')])
            = Some (Continue, s')
        \<and> map_option (\<lambda>n. (status (data n), content (data n))) (map_of (store s') ''ed'')
            = Some (COMPLETED, ImageText ''data:image/png;base64,Q0FU'' Null)
        \<and> history s' = [\<lparr>hist_id = ''uuid-0'', dataUrl = ''data:image/png;base64,Q0FU'',
                           hist_prompt = Str ''make it blue''\<rparr>])"
proof -
  let ?node = "created ''ed'' IMAGE_EDITOR"
  have h1: "map_of ex_nodes_editor ''ed'' = Some ?node" by (simp add: ex_nodes_editor_def)
  have h2: "ntype ?node = IMAGE_EDITOR" and h3: "\<not> isMuted (data ?node)"
    by (simp_all add: ex_defs)
  have h4: "map_of (store (ex_state ex_nodes_editor outs)) ''ed'' = Some (resetNode ?node)" for outs
    by (simp add: ex_state_def initial_state_def resetNodes_def ex_nodes_editor_def)
  have w: "api_log (ex_state ex_nodes_editor outs) = []"
    "history (ex_state ex_nodes_editor outs) = []"
    "uuid_draws (ex_state ex_nodes_editor outs) = 0" for outs
    by (simp_all add: ex_state_def initial_state_def world0_def)
  have u: "randomUUID ex_env_ok 0 = ''uuid-0''"
    by (simp add: ex_env_ok_def ex_env_def show_nat.simps digit_char_def)
  have a: "\<not> truthy (lookup (gatherInputs ex_edges_unwired
                (nodeOutputs (ex_state ex_nodes_editor [])) ''ed'') (''ed'' @ ''-input-text''))"
    by (simp add: gatherInputs_def ex_edges_unwired_def lookup_def ex_defs)
  from image_editor_cases[OF h1 h2 h3 h4[of "[]"] refl refl refl refl,
      where edges = ex_edges_unwired and env = ex_env, THEN conjunct1] a
  have A: "\<exists>s'. runNode ex_env ex_nodes_editor ex_edges_unwired ''ed'' (ex_state ex_nodes_editor [])
            = Some (Halt, s')
        \<and> api_log s' = [] \<and> history s' = []
        \<and> map_option (\<lambda>n. status (data n)) (map_of (store s') ''ed'') = Some ERROR"
    by (auto simp: w)
  let ?outs = "[(''img-output'', Str ''data:image/png;base64,UkVE''),
                (''t-output'', Str ''make it blue'')]"
  let ?s = "ex_state ex_nodes_editor ?outs"
  let ?ins = "gatherInputs ex_edges_editor (nodeOutputs ?s) ''ed''"
  let ?s1 = "updateNodeData ''ed'' (\<lambda>d. d\<lparr>status := PROCESSING, content := Progress ''Starting...''\<rparr>) ?s"
  have b1: "lookup ?ins (''ed'' @ ''-input-text'') = Str ''make it blue''"
    and b2: "lookup ?ins (''ed'' @ ''-input-image'') = Str ''data:image/png;base64,UkVE''"
    by (simp_all add: gatherInputs_def ex_edges_editor_def lookup_def ex_defs ex_state_def)
  have b3: "processImageInput (Str ''data:image/png;base64,UkVE'')
              = Inr (Some (Some ''UkVE'', ''image/png''))"
    by (simp add: processImageInput_def startsWith_def)
  have b4: "editImage ex_env_ok (Some ''UkVE'') ''image/png'' (Str ''make it blue'') x
              = (\<lparr>newBase64Image = Some ''QkxVRQ=='', res_text = Some ''done''\<rparr>,
                 x\<lparr>api_log := api_log x @ [GenerateContent
                     (PartsRequest ''gemini-2.5-flash-image-preview''
                        [(Some ''UkVE'', ''image/png'')] (Str ''make it blue''))]\<rparr>)"
    for x :: run_state
    by (simp add: editImage_def truthy_str_def generateContentWithRetry_def withRetry_def
          withRetry_from.simps[of _ _ 0] MAX_RETRIES_def invoke_def ex_env_ok_def ex_env_def
          readParts_def)
  from image_editor_cases[OF h1 h2 h3 h4[of ?outs] refl refl refl refl,
      where edges = ex_edges_editor and env = ex_env_ok, THEN conjunct2, THEN conjunct1,
      rule_format, of "Some ''UkVE''" "''image/png''" _ _ "''QkxVRQ==''"] b1 b2 b3 b4[of ?s1]
  have B: "\<exists>s'. runNode ex_env_ok ex_nodes_editor ex_edges_editor ''ed'' ?s = Some (Continue, s')
        \<and> map_option (\<lambda>n. (status (data n), content (data n))) (map_of (store s') ''ed'')
            = Some (COMPLETED, ImageText ''data:image/png;base64,QkxVRQ=='' (Str ''done''))
        \<and> history s' = [\<lparr>hist_id = ''uuid-0'', dataUrl = ''data:image/png;base64,QkxVRQ=='',
                           hist_prompt = Str ''make it blue''\<rparr>]"
    by (auto simp: w u if_truthy_def text_val_def)
  let ?outs2 = "[(''t-output'', Str ''make it blue'')]"
  let ?t = "ex_state ex_nodes_editor ?outs2"
  let ?ins2 = "gatherInputs ex_edges_editor (nodeOutputs ?t) ''ed''"
  let ?t1 = "updateNodeData ''ed'' (\<lambda>d. d\<lparr>status := PROCESSING, content := Progress ''Starting...''\<rparr>) ?t"
  have c1: "lookup ?ins2 (''ed'' @ ''-input-text'') = Str ''make it blue''"
    and c2: "lookup ?ins2 (''ed'' @ ''-input-image'') = Undefined"
    by (simp_all add: gatherInputs_def ex_edges_editor_def lookup_def ex_defs ex_state_def)
  have c3: "processImageInput Undefined = Inr None"
    by (simp add: processImageInput_def)
  have c4: "generateImage ex_env_ok (Str ''make it blue'') x
              = (Str ''data:image/png;base64,Q0FU'',
                 x\<lparr>api_log := api_log x @ [GenerateImages (Str ''make it blue'')]\<rparr>)"
    for x :: run_state
    by (simp add: generateImage_def generateImagesWithRetry_def withRetry_def
          withRetry_from.simps[of _ _ 0] MAX_RETRIES_def invoke_def ex_env_ok_def ex_env_def)
  have c5: "startsWith ''data:image/png;base64,Q0FU'' ''data:image''"
    by (simp add: startsWith_def)
  from image_editor_cases[OF h1 h2 h3 h4[of ?outs2] refl refl refl refl,
      where edges = ex_edges_editor and env = ex_env_ok, THEN conjunct2, THEN conjunct2,
      rule_format, of "''data:image/png;base64,Q0FU''"] c1 c2 c3 c4[of ?t1] c5
  have C: "\<exists>s'. runNode ex_env_ok ex_nodes_editor ex_edges_editor ''ed'' ?t = Some (Continue, s')
        \<and> map_option (\<lambda>n. (status (data n), content (data n))) (map_of (store s') ''ed'')
            = Some (COMPLETED, ImageText ''data:image/png;base64,Q0FU'' Null)
        \<and> history s' = [\<lparr>hist_id = ''uuid-0'', dataUrl = ''data:image/png;base64,Q0FU'',
                           hist_prompt = Str ''make it blue''\<rparr>]"
    by (auto simp: w u)
  from A B C show ?thesis by blast
qed

subsection \<open>The multi-image handle of a preset\<close>

lemma log_withRetry_from_pos:
  assumes "i < MAX_RETRIES"
  shows "\<exists>k>0. api_log (snd (withRetry_from env (invoke c f) i e s)) = api_log s @ replicate k c"
proof -
  let ?call = "invoke c f :: 'a world_scheme \<Rightarrow> (js_error + 'b) \<times> 'a world_scheme"
  let ?w1 = "s\<lparr>api_log := api_log s @ [c]\<rparr>"
  have c: "?call s = (f (length (api_log s)), ?w1)" by (simp add: invoke_def)
  show ?thesis
  proof (cases "f (length (api_log s))")
    case (Inr v)
    with assms c have "withRetry_from env ?call i e s = (Inr v, ?w1)"
      by (simp add: withRetry_from.simps[of env ?call i])
    then show ?thesis by (auto intro: exI[of _ "Suc 0"])
  next
    case (Inl error)
    show ?thesis
    proof (cases "isRateLimitError env error \<and> i < MAX_RETRIES - 1")
      case False
      with assms c Inl have "withRetry_from env ?call i e s = (Inl error, ?w1)"
        by (auto simp: withRetry_from.simps[of env ?call i])
      then show ?thesis by (auto intro: exI[of _ "Suc 0"])
    next
      case rl: True
      obtain r w2 where rn: "random_next env ?w1 = (r, w2)" by (cases "random_next env ?w1")
      then have l2: "api_log w2 = api_log ?w1" by (auto simp: random_next_def)
      let ?w3 = "delay (INITIAL_DELAY_MS * 2 ^ i + r * 1000) w2"
      have l3: "api_log ?w3 = api_log s @ [c]" using l2 by (simp add: delay_def)
      have eq: "withRetry_from env ?call i e s = withRetry_from env ?call (i + 1) error ?w3"
        using assms c Inl rl rn by (simp add: withRetry_from.simps[of env ?call i] Let_def)
      from log_withRetry_from[of env c f "i + 1" error ?w3]
      obtain k where k: "api_log (snd (withRetry_from env ?call (i + 1) error ?w3))
                           = api_log ?w3 @ replicate k c" by blast
      have "api_log (snd (withRetry_from env ?call i e s)) = api_log s @ replicate (Suc k) c"
        unfolding eq k l3 by (simp add: replicate_append_same)
      then show ?thesis by blast
    qed
  qed
qed

lemma log_executePreset:
  assumes "ins \<noteq> []" and "truthy p"
  shows "\<exists>k>0. api_log (snd (executePreset env ins p s)) = api_log s @ replicate k
           (GenerateContent (PartsRequest ''gemini-2.5-flash-image-preview'' ins p))"
proof -
  let ?c = "GenerateContent (PartsRequest ''gemini-2.5-flash-image-preview'' ins p)"
  let ?f = "\<lambda>k. generateContent env k (PartsRequest ''gemini-2.5-flash-image-preview'' ins p)"
  let ?r = "withRetry_from env (invoke ?c ?f) 0 (NonError ''undefined'') s"
  have "0 < MAX_RETRIES" by (simp add: MAX_RETRIES_def)
  from log_withRetry_from_pos[OF this, of env ?c ?f "NonError ''undefined''" s] obtain k where
    k: "0 < k" "api_log (snd ?r) = api_log s @ replicate k ?c" by blast
  from assms have "snd (executePreset env ins p s) = snd ?r"
    by (simp add: executePreset_def generateContentWithRetry_def withRetry_def
          split: prod.splits sum.splits)
  with k show ?thesis by auto
qed

lemma length_all_results: "all_results rs = Inr xs \<Longrightarrow> length xs = length rs"
proof (induction rs arbitrary: xs)
  case Nil
  then show ?case by simp
next
  case (Cons r rs)
  then show ?case by (cases r) (auto split: sum.splits)
qed

lemma api_log_updateNodeData: "api_log (updateNodeData n upd s) = api_log s"
  by (simp add: updateNodeData_def split: option.splits)

lemma nodeOutputs_updateNodeData: "nodeOutputs (updateNodeData n upd s) = nodeOutputs s"
  by (simp add: updateNodeData_def split: option.splits)

lemma api_log_addHistory: "api_log (addHistory env url p s) = api_log s"
  by (simp add: addHistory_def uuid_next_def)

lemma log_runPreset:
  assumes "all_results (map processImageInput (imageInputsRaw edges node nodeId ins (nodeOutputs s)))
             = Inr files"
    and "[f. Some f \<leftarrow> files] = first # others"
    and "if_truthy (prompt (data node)) = Some p"
  shows "\<exists>k>0. api_log (snd (runPreset env edges node nodeId ins s)) = api_log s @ replicate k
           (GenerateContent (PartsRequest ''gemini-2.5-flash-image-preview'' (first # others) (Str p)))"
proof -
  from assms(3) have t: "truthy (Str p)" by (auto simp: if_truthy_def split: option.splits if_splits)
  from log_executePreset[OF _ t, of "first # others" env s] obtain k where
    k: "0 < k" "api_log (snd (executePreset env (first # others) (Str p) s)) = api_log s @ replicate k
           (GenerateContent (PartsRequest ''gemini-2.5-flash-image-preview'' (first # others) (Str p)))"
    by auto
  obtain result s1 where e: "executePreset env (first # others) (Str p) s = (result, s1)"
    by (cases "executePreset env (first # others) (Str p) s")
  from assms e have "api_log (snd (runPreset env edges node nodeId ins s)) = api_log s1"
    by (simp add: runPreset_def api_log_addHistory split: option.splits)
  with k e show ?thesis by auto
qed


lemma api_log_runNode_preset:
  assumes "map_of nodes nodeId = Some node" and "ntype node = PROMPT_PRESET"
    and "\<not> isMuted (data node)"
  shows "\<exists>r s'. runNode env nodes edges nodeId s = Some (r, s')
           \<and> api_log s' = api_log (snd (runPreset env edges node nodeId
                (gatherInputs edges (nodeOutputs s) nodeId)
                (updateNodeData nodeId
                   (\<lambda>d. d\<lparr>status := PROCESSING, content := Progress ''Starting...''\<rparr>) s)))"
  using assms
  by (simp add: runNode_def dispatch_def Let_def api_log_updateNodeData
        split: prod.splits sum.splits)

text \<open>
  Claim C7, as stated, at a workflow loaded from a file whose edges carry the ids
  \<^verbatim>\<open>10\<close>, \<^verbatim>\<open>9\<close> and \<^verbatim>\<open>11\<close>, created in that order: the edge from image \<open>a\<close> was created
  before the edge from image \<open>b\<close>, yet the values collected for the multi-image handle
  of the preset are \<open>b\<close>'s and then \<open>a\<close>'s, and so are the images of the SDK call of the
  run, because \<^verbatim>\<open>Object.values\<close> lists the keys that are array indices first, in
  ascending numeric order.
\<close>

theorem multi_image_order_counterexample:
  "map fst ex_edges_numeric = [''10'', ''9'', ''11'']
   \<and> map (\<lambda>edge. lookup [(''a-output'', Str ''data:image/png;base64,QQ==''),
                          (''b-output'', Str ''data:image/png;base64,Qg=='')] (sourceHandleId edge))
       (multi_image_edges ''p'' (map snd ex_edges_numeric))
     = [Str ''data:image/png;base64,QQ=='', Str ''data:image/png;base64,Qg=='']
   \<and> imageInputsRaw ex_edges_numeric ex_preset_node ''p'' []
       [(''a-output'', Str ''data:image/png;base64,QQ==''),
        (''b-output'', Str ''data:image/png;base64,Qg=='')]
     = [Str ''data:image/png;base64,Qg=='', Str ''data:image/png;base64,QQ=='']
   \<and> map_option (\<lambda>(r, s). (r, api_log s))
       (runWorkflow ex_env_ok ex_nodes_preset ex_edges_numeric [] world0)
     = Some (Continue,
         [GenerateContent (PartsRequest ''gemini-2.5-flash-image-preview''
            [(Some ''Qg=='', ''image/png''), (Some ''QQ=='', ''image/png'')]
            (Str ''Combine the images''))])"
  by code_simp

text \<open>
  Claim C7, amended: for an unmuted preset node with the aggregating handle
  \<^verbatim>\<open>${nodeId}-input-multi-image\<close>, the values collected at dispatch are the outputs at the
  source handles of exactly the edges into that handle, as many values as edges, in
  the order of \<^verbatim>\<open>Object.values(edges)\<close>: the edges whose id is an array index first, in
  ascending numeric order, then the other edges in the order of their creation. When
  no edge id is an array index this is the order of creation, and an edge created
  under a fresh id that is not an array index comes last. When the processing of the
  collected values raises no error there are as many results as edges, and when at
  least one of them is an image and the preset has a prompt, the images among them,
  in that order, are what every SDK call of the node receives, and there is at least
  one such call.
\<close>

theorem multi_image_collects_all:
  assumes "map_of nodes nodeId = Some node"
    and "ntype node = PROMPT_PRESET"
    and "\<not> isMuted (data node)"
    and "find (\<lambda>i. port_id i = nodeId @ ''-input-multi-image'') (inputs (data node)) = Some mi"
  shows "imageInputsRaw edges node nodeId ins outs =
           map (\<lambda>edge. lookup outs (sourceHandleId edge))
             (multi_image_edges nodeId (Object_values edges))
     \<and> length (imageInputsRaw edges node nodeId ins outs) =
         length (multi_image_edges nodeId (Object_values edges))
     \<and> Object_values edges =
         map snd (sort_key (\<lambda>p. int_of_digits (fst p))
                    (filter (\<lambda>p. is_array_index (fst p)) edges))
         @ map snd (filter (\<lambda>p. \<not> is_array_index (fst p)) edges)
     \<and> ((\<forall>k \<in> set (map fst edges). \<not> is_array_index k) \<longrightarrow>
           Object_values edges = map snd edges)
     \<and> (\<forall>uuid e. uuid \<notin> set (map fst edges) \<and> \<not> is_array_index uuid \<longrightarrow>
           Object_values (AList.update uuid e edges) = Object_values edges @ [e])
     \<and> (\<forall>files first others p.
           all_results (map processImageInput
             (map (\<lambda>edge. lookup (nodeOutputs s) (sourceHandleId edge))
                (multi_image_edges nodeId (Object_values edges)))) = Inr files
           \<and> [f. Some f \<leftarrow> files] = first # others
           \<and> if_truthy (prompt (data node)) = Some p \<longrightarrow>
           length files = length (multi_image_edges nodeId (Object_values edges))
           \<and> (\<exists>r s' k. runNode env nodes edges nodeId s = Some (r, s') \<and> 0 < k
                 \<and> api_log s' = api_log s @ replicate k
                      (GenerateContent (PartsRequest ''gemini-2.5-flash-image-preview''
                         (first # others) (Str p)))))"
proof -
  let ?inc = "multi_image_edges nodeId (Object_values edges)"
  let ?s0 = "updateNodeData nodeId
               (\<lambda>d. d\<lparr>status := PROCESSING, content := Progress ''Starting...''\<rparr>) s"
  let ?ins = "gatherInputs edges (nodeOutputs s) nodeId"
  from assms(4) have "port_id mi = nodeId @ ''-input-multi-image''"
    by (auto simp: find_Some_iff)
  with assms(4) have raw: "imageInputsRaw edges node nodeId ins' outs' =
      map (\<lambda>edge. lookup outs' (sourceHandleId edge)) (multi_image_edges nodeId (Object_values edges))"
    for ins' outs'
    by (simp add: imageInputsRaw_def multi_image_edges_def)
  have c1: "imageInputsRaw edges node nodeId ins outs =
              map (\<lambda>edge. lookup outs (sourceHandleId edge)) ?inc" by (rule raw)
  have c2: "length (imageInputsRaw edges node nodeId ins outs) = length ?inc"
    by (simp add: raw)
  have c3: "Object_values edges =
         map snd (sort_key (\<lambda>p. int_of_digits (fst p))
                    (filter (\<lambda>p. is_array_index (fst p)) edges))
         @ map snd (filter (\<lambda>p. \<not> is_array_index (fst p)) edges)"
    by (simp add: Object_values_def own_entries_def)
  have c4: "(\<forall>k \<in> set (map fst edges). \<not> is_array_index k) \<longrightarrow>
           Object_values edges = map snd edges"
    using Object_values_plain[of edges] by blast
  have c5: "\<forall>uuid e. uuid \<notin> set (map fst edges) \<and> \<not> is_array_index uuid \<longrightarrow>
           Object_values (AList.update uuid e edges) = Object_values edges @ [e]"
    using Object_values_update_fresh[of _ edges] by blast
  have c6: "length files = length ?inc
           \<and> (\<exists>r s' k. runNode env nodes edges nodeId s = Some (r, s') \<and> 0 < k
                 \<and> api_log s' = api_log s @ replicate k
                      (GenerateContent (PartsRequest ''gemini-2.5-flash-image-preview''
                         (first # others) (Str p))))"
    if h: "all_results (map processImageInput
             (map (\<lambda>edge. lookup (nodeOutputs s) (sourceHandleId edge)) ?inc)) = Inr files"
      "[f. Some f \<leftarrow> files] = first # others"
      "if_truthy (prompt (data node)) = Some p"
    for files first others p
  proof -
    from length_all_results[OF h(1)] have l: "length files = length ?inc" by simp
    from h(1) have a: "all_results (map processImageInput
        (imageInputsRaw edges node nodeId ?ins (nodeOutputs ?s0))) = Inr files"
      by (simp add: raw nodeOutputs_updateNodeData)
    from log_runPreset[OF a h(2) h(3), of env] obtain k where
      k: "0 < k" "api_log (snd (runPreset env edges node nodeId ?ins ?s0)) = api_log ?s0 @ replicate k
           (GenerateContent (PartsRequest ''gemini-2.5-flash-image-preview'' (first # others) (Str p)))"
      by blast
    from api_log_runNode_preset[OF assms(1-3), of env edges s] obtain r s' where
      r: "runNode env nodes edges nodeId s = Some (r, s')"
         "api_log s' = api_log (snd (runPreset env edges node nodeId ?ins ?s0))" by blast
    from k r have "runNode env nodes edges nodeId s = Some (r, s') \<and> 0 < k
                 \<and> api_log s' = api_log s @ replicate k
                      (GenerateContent (PartsRequest ''gemini-2.5-flash-image-preview''
                         (first # others) (Str p)))"
      by (simp add: api_log_updateNodeData)
    then have "\<exists>r s' k. runNode env nodes edges nodeId s = Some (r, s') \<and> 0 < k
                 \<and> api_log s' = api_log s @ replicate k
                      (GenerateContent (PartsRequest ''gemini-2.5-flash-image-preview''
                         (first # others) (Str p)))" by blast
    with l show ?thesis by blast
  qed
  from c1 c2 c3 c4 c5 c6 show ?thesis by blast
qed

text \<open>Two edges with ids that are not array indices into the multi-image handle of a
  preset node: both values, in the order of the edges and not of the outputs; a third
  edge, created later, comes last; and the SDK call receives the two images in the
  order of the edges.\<close>

theorem multi_image_collects_all_witness:
  "imageInputsRaw ex_edges_multi ex_preset_node ''p'' []
       [(''b-output'', Str ''data:image/png;base64,Qg==''),
        (''a-output'', Str ''data:image/png;base64,QQ=='')]
     = [Str ''data:image/png;base64,QQ=='', Str ''data:image/png;base64,Qg=='']
   \<and> Object_values ex_edges_multi = map snd ex_edges_multi
   \<and> Object_values (AList.update ''e3'' (snd (mkEdge ''e3'' ''c'' ''c-output'' ''p'' ''p-input-multi-image''))
         ex_edges_multi)
     = Object_values ex_edges_multi @ [snd (mkEdge ''e3'' ''c'' ''c-output'' ''p'' ''p-input-multi-image'')]
   \<and> (\<exists>r s' k. runNode ex_env_ok ex_nodes_preset ex_edges_multi ''p''
          (ex_state ex_nodes_preset
             [(''b-output'', Str ''data:image/png;base64,Qg==''),
              (''a-output'', Str ''data:image/png;base64,QQ=='')]) = Some (r, s')
        \<and> 0 < k
        \<and> api_log s' = replicate k
             (GenerateContent (PartsRequest ''gemini-2.5-flash-image-preview''
                [(Some ''QQ=='', ''image/png''), (Some ''Qg=='', ''image/png'')]
                (Str ''Combine the images''))))"
proof -
  let ?outs = "[(''b-output'', Str ''data:image/png;base64,Qg==''),
                (''a-output'', Str ''data:image/png;base64,QQ=='')]"
  let ?s = "ex_state ex_nodes_preset ?outs"
  have h1: "map_of ex_nodes_preset ''p'' = Some ex_preset_node"
    by (simp add: ex_nodes_preset_def)
  have h2: "ntype ex_preset_node = PROMPT_PRESET"
    by (simp add: ex_preset_node_def createNode_def ex_presets_def baseData_def mkPort_def)
  have h3: "\<not> isMuted (data ex_preset_node)"
    by (simp add: ex_preset_node_def createNode_def ex_presets_def baseData_def mkPort_def)
  have h4: "find (\<lambda>i. port_id i = ''p'' @ ''-input-multi-image'') (inputs (data ex_preset_node))
             = Some (mkPort ''p-input-multi-image'' ''Images'' T_image)"
    by (simp add: ex_preset_node_def createNode_def ex_presets_def baseData_def mkPort_def)
  have p: "\<forall>k \<in> set (map fst ex_edges_multi). \<not> is_array_index k"
    by (simp add: ex_edges_multi_def mkEdge_def is_array_index_def is_digit_def)
  have f: "''e3'' \<notin> set (map fst ex_edges_multi) \<and> \<not> is_array_index ''e3''"
    by (simp add: ex_edges_multi_def mkEdge_def is_array_index_def is_digit_def)
  have ov: "Object_values ex_edges_multi = map snd ex_edges_multi"
    by (simp add: Object_values_def ex_edges_multi_def mkEdge_def enum_defs)
  have inc: "multi_image_edges ''p'' (Object_values ex_edges_multi)
               = [snd (mkEdge ''e0'' ''a'' ''a-output'' ''p'' ''p-input-multi-image''),
                  snd (mkEdge ''e1'' ''b'' ''b-output'' ''p'' ''p-input-multi-image'')]"
    unfolding ov by (simp add: multi_image_edges_def ex_edges_multi_def mkEdge_def)
  have no: "nodeOutputs ?s = ?outs" by (simp add: ex_state_def)
  have lg: "api_log ?s = []" by (simp add: ex_state_def initial_state_def world0_def)
  have ar: "all_results (map processImageInput
             (map (\<lambda>edge. lookup (nodeOutputs ?s) (sourceHandleId edge))
                (multi_image_edges ''p'' (Object_values ex_edges_multi))))
             = Inr [Some (Some ''QQ=='', ''image/png''), Some (Some ''Qg=='', ''image/png'')]"
    unfolding inc no by code_simp
  have fl: "[f. Some f \<leftarrow> [Some (Some ''QQ=='', ''image/png''), Some (Some ''Qg=='', ''image/png'')]]
              = (Some ''QQ=='', ''image/png'') # [(Some ''Qg=='', ''image/png'')]" by simp
  have pr: "if_truthy (prompt (data ex_preset_node)) = Some ''Combine the images''"
    by (simp add: ex_preset_node_def createNode_def ex_presets_def baseData_def mkPort_def
          if_truthy_def)
  note m = multi_image_collects_all[OF h1 h2 h3 h4, where edges = ex_edges_multi and ins = "[]"
      and outs = ?outs and s = ?s and env = ex_env_ok]
  from m have A: "imageInputsRaw ex_edges_multi ex_preset_node ''p'' [] ?outs
     = [Str ''data:image/png;base64,QQ=='', Str ''data:image/png;base64,Qg=='']"
    by (simp add: inc mkEdge_def lookup_def)
  from m p have B: "Object_values ex_edges_multi = map snd ex_edges_multi" by blast
  from m f have C: "Object_values (AList.update ''e3''
         (snd (mkEdge ''e3'' ''c'' ''c-output'' ''p'' ''p-input-multi-image'')) ex_edges_multi)
     = Object_values ex_edges_multi @ [snd (mkEdge ''e3'' ''c'' ''c-output'' ''p'' ''p-input-multi-image'')]"
    by blast
  from m ar fl pr have "\<exists>r s' k. runNode ex_env_ok ex_nodes_preset ex_edges_multi ''p'' ?s = Some (r, s')
        \<and> 0 < k
        \<and> api_log s' = api_log ?s @ replicate k
             (GenerateContent (PartsRequest ''gemini-2.5-flash-image-preview''
                ((Some ''QQ=='', ''image/png'') # [(Some ''Qg=='', ''image/png'')])
                (Str ''Combine the images'')))"
    by blast
  then have D: "\<exists>r s' k. runNode ex_env_ok ex_nodes_preset ex_edges_multi ''p'' ?s = Some (r, s')
        \<and> 0 < k
        \<and> api_log s' = replicate k
             (GenerateContent (PartsRequest ''gemini-2.5-flash-image-preview''
                [(Some ''QQ=='', ''image/png''), (Some ''Qg=='', ''image/png'')]
                (Str ''Combine the images'')))"
    by (simp add: lg)
  from A B C D show ?thesis by blast
qed

subsection \<open>Port compatibility and auto-routing\<close>

lemma scanInputs_find:
  "scanInputs edges tid t st ps =
     map_option port_id
       (find (\<lambda>p. isTypeCompatible st (port_type p)
                 \<and> (\<not> isAlreadyConnected edges tid (port_id p) \<or> isMultiImageHandle t (port_id p))) ps)"
  by (induction ps) auto

text \<open>
  Claim C9, as stated, at a connection dragged from a node's output and released on
  the body of that same node: the node's input port is type-compatible and
  unconnected, so the claim promises an edge to it, and the handler creates none
  (it refuses a target equal to the source).
\<close>

theorem autoroute_self_drop_counterexample:
  "connectOnMouseUp [(''n1'', created ''n1'' TEXT_GENERATOR)] [] ''n1'' ''n1-output''
       (OffHandle (Some ''n1'')) ''e1'' = []
   \<and> find (\<lambda>p. isTypeCompatible T_text (port_type p)
               \<and> available [] (created ''n1'' TEXT_GENERATOR) ''n1'' p)
         (inputs (data (created ''n1'' TEXT_GENERATOR)))
       = Some (mkPort ''n1-input'' ''Prompt'' T_text)"
  by (simp add: connectOnMouseUp_def resolveTarget_def created_def createNode_def baseData_def
       mkPort_def isTypeCompatible_def available_def isAlreadyConnected_def Object_values_def enum_defs)

text \<open>
  Claim C9, amended: two port types are compatible iff they are equal or one of them
  is \<^verbatim>\<open>any\<close>; a connection released on the body of its own source node leaves the
  edges unchanged, whatever the ports of that node; and when a connection dragged
  from an existing output handle of node \<open>src\<close> is released on the body of another
  node \<open>tgt\<close> (whose port ids are non-empty strings), the edge created goes to the
  first input port of \<open>tgt\<close>, in declaration order, that is type-compatible and
  available (unconnected, or the aggregating multi-image port of a preset); when no
  port qualifies the edges are unchanged.
\<close>

theorem autoroute_first_match:
  "(\<forall>s t. isTypeCompatible s t \<longleftrightarrow> s = t \<or> s = T_any \<or> t = T_any)
   \<and> connectOnMouseUp nodes edges src sh (OffHandle (Some src)) uuid = edges
   \<and> (map_of nodes src = Some sourceNode
       \<and> find (\<lambda>out. port_id out = sh) (outputs (data sourceNode)) = Some so
       \<and> map_of nodes tgt = Some targetNode
       \<and> src \<noteq> tgt
       \<and> tgt \<noteq> []
       \<and> (\<forall>p \<in> set (inputs (data targetNode)). port_id p \<noteq> [])
      \<longrightarrow> connectOnMouseUp nodes edges src sh (OffHandle (Some tgt)) uuid =
            (case find (\<lambda>p. isTypeCompatible (port_type so) (port_type p)
                           \<and> available edges targetNode tgt p) (inputs (data targetNode)) of
               None \<Rightarrow> edges
             | Some p \<Rightarrow>
                 AList.update uuid
                   \<lparr>edge_id = uuid, sourceNodeId = src, sourceHandleId = sh,
                    targetNodeId = tgt, targetHandleId = port_id p\<rparr> edges))"
proof -
  let ?P = "\<lambda>p. isTypeCompatible (port_type so) (port_type p) \<and> available edges targetNode tgt p"
  have compat: "\<forall>s t. isTypeCompatible s t \<longleftrightarrow> s = t \<or> s = T_any \<or> t = T_any"
    by (auto simp: isTypeCompatible_def)
  have self: "connectOnMouseUp nodes edges src sh (OffHandle (Some src)) uuid = edges"
    by (simp add: connectOnMouseUp_def resolveTarget_def split: option.splits)
  have route: "connectOnMouseUp nodes edges src sh (OffHandle (Some tgt)) uuid =
            (case find ?P (inputs (data targetNode)) of
               None \<Rightarrow> edges
             | Some p \<Rightarrow>
                 AList.update uuid
                   \<lparr>edge_id = uuid, sourceNodeId = src, sourceHandleId = sh,
                    targetNodeId = tgt, targetHandleId = port_id p\<rparr> edges)"
    if a1: "map_of nodes src = Some sourceNode"
      and a2: "find (\<lambda>out. port_id out = sh) (outputs (data sourceNode)) = Some so"
      and a3: "map_of nodes tgt = Some targetNode"
      and a4: "src \<noteq> tgt"
      and a5: "tgt \<noteq> []"
      and a6: "\<forall>p \<in> set (inputs (data targetNode)). port_id p \<noteq> []"
  proof -
    have scan: "scanInputs edges tgt (ntype targetNode) (port_type so) (inputs (data targetNode))
                  = map_option port_id (find ?P (inputs (data targetNode)))"
      by (simp add: scanInputs_find available_def)
    have res: "resolveTarget nodes edges src sh (OffHandle (Some tgt)) =
            (case find ?P (inputs (data targetNode)) of None \<Rightarrow> (None, None)
             | Some p \<Rightarrow> (Some tgt, Some (port_id p)))"
      using a1 a2 a3 a4 a5 by (simp add: resolveTarget_def scan split: option.splits)
    show ?thesis
    proof (cases "find ?P (inputs (data targetNode))")
      case None
      with res show ?thesis by (simp add: connectOnMouseUp_def)
    next
      case (Some p)
      then have pin: "p \<in> set (inputs (data targetNode))" and pP: "?P p"
        by (auto simp: find_Some_iff)
      from pin a6 have ne: "port_id p \<noteq> []" by blast
      from pP have "\<not> isAlreadyConnected edges tgt (port_id p)
                     \<or> isMultiImageHandle (ntype targetNode) (port_id p)"
        by (simp add: available_def)
      with res Some ne a3 a4 a5 show ?thesis
        by (auto simp: connectOnMouseUp_def)
    qed
  qed
  from compat self route show ?thesis by blast
qed

text \<open>A text output released on the body of an image editor: the image port is
  skipped (incompatible) and the edge goes to the prompt port; released on the body of
  its own node, it creates no edge.\<close>

theorem autoroute_first_match_witness:
  "connectOnMouseUp
     [(''n0'', created ''n0'' TEXT_INPUT), (''n2'', created ''n2'' IMAGE_EDITOR)] []
     ''n0'' ''n0-output'' (OffHandle (Some ''n2'')) ''e1''
   = [(''e1'', \<lparr>edge_id = ''e1'', sourceNodeId = ''n0'', sourceHandleId = ''n0-output'',
                targetNodeId = ''n2'', targetHandleId = ''n2-input-text''\<rparr>)]
   \<and> connectOnMouseUp
     [(''n0'', created ''n0'' TEXT_INPUT), (''n2'', created ''n2'' IMAGE_EDITOR)] []
     ''n0'' ''n0-output'' (OffHandle (Some ''n0'')) ''e1'' = []"
proof -
  let ?nodes = "[(''n0'', created ''n0'' TEXT_INPUT), (''n2'', created ''n2'' IMAGE_EDITOR)]"
  have h1: "map_of ?nodes ''n0'' = Some (created ''n0'' TEXT_INPUT)" by simp
  have h2: "find (\<lambda>out. port_id out = ''n0-output'') (outputs (data (created ''n0'' TEXT_INPUT)))
              = Some (mkPort ''n0-output'' ''Text'' T_text)"
    by (simp add: created_def createNode_def baseData_def mkPort_def)
  have h3: "map_of ?nodes ''n2'' = Some (created ''n2'' IMAGE_EDITOR)" by simp
  have h4: "''n0'' \<noteq> ''n2''" by simp
  have h5: "''n2'' \<noteq> []" by simp
  have h6: "\<forall>p \<in> set (inputs (data (created ''n2'' IMAGE_EDITOR))). port_id p \<noteq> []"
    by (simp add: created_def createNode_def baseData_def mkPort_def)
  note m = autoroute_first_match[where nodes = ?nodes and edges = "[]" and src = "''n0''"
      and sh = "''n0-output''" and uuid = "''e1''" and tgt = "''n2''"
      and sourceNode = "created ''n0'' TEXT_INPUT" and so = "mkPort ''n0-output'' ''Text'' T_text"
      and targetNode = "created ''n2'' IMAGE_EDITOR"]
  from m h1 h2 h3 h4 h5 h6
  have "connectOnMouseUp ?nodes [] ''n0'' ''n0-output'' (OffHandle (Some ''n2'')) ''e1'' =
            (case find (\<lambda>p. isTypeCompatible (port_type (mkPort ''n0-output'' ''Text'' T_text)) (port_type p)
                           \<and> available [] (created ''n2'' IMAGE_EDITOR) ''n2'' p)
                    (inputs (data (created ''n2'' IMAGE_EDITOR))) of
               None \<Rightarrow> []
             | Some p \<Rightarrow>
                 AList.update ''e1''
                   \<lparr>edge_id = ''e1'', sourceNodeId = ''n0'', sourceHandleId = ''n0-output'',
                    targetNodeId = ''n2'', targetHandleId = port_id p\<rparr> [])"
    by blast
  then have A: "connectOnMouseUp ?nodes [] ''n0'' ''n0-output'' (OffHandle (Some ''n2'')) ''e1''
   = [(''e1'', \<lparr>edge_id = ''e1'', sourceNodeId = ''n0'', sourceHandleId = ''n0-output'',
                targetNodeId = ''n2'', targetHandleId = ''n2-input-text''\<rparr>)]"
    by (simp add: created_def createNode_def baseData_def mkPort_def isTypeCompatible_def
          available_def isAlreadyConnected_def Object_values_def enum_defs)
  from m have B: "connectOnMouseUp ?nodes [] ''n0'' ''n0-output'' (OffHandle (Some ''n0'')) ''e1'' = []"
    by blast
  from A B show ?thesis by blast
qed

end
